theory Spec2Isabelle
  imports Main "HOL-Library.AList" "HOL-Library.Sublist"
begin

section \<open>The build script \<^verbatim>\<open>bin/build.js\<close>\<close>

text \<open>
  The script configures a bundler and registers three post-build (\<^verbatim>\<open>onEnd\<close>) hooks that
  work on the project directory: one writes a trimmed \<^verbatim>\<open>package.json\<close> into
  \<^verbatim>\<open>dist\<close>, one copies \<^verbatim>\<open>README.md\<close>, one copies the tree under \<^verbatim>\<open>public\<close>.
  In development it lists the files below \<^verbatim>\<open>dist\<close> as URLs with an inclusion snippet.

  The file system is a tree. A directory is the list of its entries in the order in which
  a directory listing enumerates them; file contents are byte strings. Symbolic links and
  special files are outside the model. The bundler, the Sass plugin, \<^verbatim>\<open>JSON.parse\<close> and
  \<^verbatim>\<open>JSON.stringify\<close> are not code of the script: the two JSON functions are parameters
  of the definitions that call them.
\<close>

subsection \<open>File system\<close>

type_synonym bytes = string

datatype node = File bytes | Dir "(string \<times> node) list"

type_synonym dir = "(string \<times> node) list"

datatype errno = ENOENT | ENOTDIR | EISDIR | EEXIST

text \<open>Errors a hook can catch: a failed system call, or an exception of the language.\<close>

datatype js_error = SystemError errno | SyntaxError | TypeError

text \<open>What a hook prints: \<^verbatim>\<open>console.log\<close> (standard output) and \<^verbatim>\<open>console.error\<close>
  (the error stream, with the caught error).\<close>

datatype console = ConsoleLog string | ConsoleError string js_error

text \<open>\<^verbatim>\<open>fs.access(p)\<close>: succeeds when something exists at the path, of either kind.\<close>

definition access :: "node option \<Rightarrow> bool" where
  "access n = (n \<noteq> None)"

text \<open>\<^verbatim>\<open>dirent.isDirectory()\<close>.\<close>

fun isDirectory :: "node \<Rightarrow> bool" where
  "isDirectory (Dir ents) = True"
| "isDirectory (File b) = False"

text \<open>\<^verbatim>\<open>fs.readFile(p)\<close>, given what is at \<open>p\<close>.\<close>

fun readFile :: "node option \<Rightarrow> errno + bytes" where
  "readFile None = Inl ENOENT"
| "readFile (Some (Dir ents)) = Inl EISDIR"
| "readFile (Some (File b)) = Inr b"

text \<open>\<^verbatim>\<open>fs.writeFile(path.join(parent, name), data)\<close>, given what is at \<open>parent\<close>: the
  parent must be a directory and the target must not be one; an existing file is replaced
  (it keeps its place in the listing), a new one is added. The result is the parent's new
  entries.\<close>

fun writeFile :: "node option \<Rightarrow> string \<Rightarrow> bytes \<Rightarrow> errno + dir" where
  "writeFile None name data = Inl ENOENT"
| "writeFile (Some (File b)) name data = Inl ENOTDIR"
| "writeFile (Some (Dir ents)) name data =
     (case map_of ents name of
        Some (Dir sub) \<Rightarrow> Inl EISDIR
      | _ \<Rightarrow> Inr (AList.update name (File data) ents))"

text \<open>\<^verbatim>\<open>copyFile(src, path.join(parent, name))\<close> with the default mode, for a source
  that exists and a parent that is a directory (given by its entries): the directory's
  entries afterwards and the error, if any. A file is written over whatever file is at the
  target. A directory at the target cannot be opened for writing and stays as it is. For a
  source that is a directory the target is opened first (created, or emptied) and reading
  the source fails; the failed copy then removes the target.\<close>

fun copyFileInto :: "node \<Rightarrow> dir \<Rightarrow> string \<Rightarrow> dir \<times> errno option" where
  "copyFileInto (File b) ents name =
     (case map_of ents name of
        Some (Dir sub) \<Rightarrow> (ents, Some EISDIR)
      | _ \<Rightarrow> (AList.update name (File b) ents, None))"
| "copyFileInto (Dir entries) ents name =
     (case map_of ents name of
        Some (Dir sub) \<Rightarrow> (ents, Some EISDIR)
      | _ \<Rightarrow> (AList.delete name ents, Some EISDIR))"

text \<open>\<^verbatim>\<open>copyFile(src, path.join(parent, name))\<close>, given what is at \<open>src\<close> and at
  \<open>parent\<close>: what is at \<open>parent\<close> afterwards and the error, if any. A missing source, a
  missing parent and a parent that is a file are errors that change nothing.\<close>

definition copyFile :: "node option \<Rightarrow> node option \<Rightarrow> string \<Rightarrow> node option \<times> errno option" where
  "copyFile src parent name =
     (case src of
        None \<Rightarrow> (parent, Some ENOENT)
      | Some s \<Rightarrow>
          (case parent of
             None \<Rightarrow> (parent, Some ENOENT)
           | Some (File b) \<Rightarrow> (parent, Some ENOTDIR)
           | Some (Dir ents) \<Rightarrow>
               (case copyFileInto s ents name of (ents', r) \<Rightarrow> (Some (Dir ents'), r))))"

text \<open>\<^verbatim>\<open>mkdir(dest, { recursive: true })\<close>, given what is at \<open>dest\<close> (its parent exists at
  every call of the script): a missing directory is created empty, an existing one is left
  as it is, a file in its place is an error. The result is the directory's entries.\<close>

fun mkdir :: "node option \<Rightarrow> errno + dir" where
  "mkdir None = Inr []"
| "mkdir (Some (Dir ents)) = Inr ents"
| "mkdir (Some (File b)) = Inl EEXIST"

text \<open>Putting back the subtree that a call on \<open>path.join(dest, name)\<close> has left there.\<close>

fun setChild :: "string \<Rightarrow> node option \<Rightarrow> dir \<Rightarrow> dir" where
  "setChild name None d = d"
| "setChild name (Some c) d = AList.update name c d"

subsection \<open>Paths into a tree\<close>

text \<open>The node at a relative path (a list of names), and the bytes of the file there.\<close>

fun find_path :: "node option \<Rightarrow> string list \<Rightarrow> node option" where
  "find_path n [] = n"
| "find_path (Some (Dir ents)) (x # xs) = find_path (map_of ents x) xs"
| "find_path (Some (File b)) (x # xs) = None"
| "find_path None (x # xs) = None"

definition file_at :: "node option \<Rightarrow> string list \<Rightarrow> bytes option" where
  "file_at n p = (case find_path n p of Some (File b) \<Rightarrow> Some b | _ \<Rightarrow> None)"

text \<open>A directory never lists a name twice.\<close>

fun wf_node :: "node \<Rightarrow> bool"
and wf_dir :: "dir \<Rightarrow> bool" where
  "wf_node (File b) = True"
| "wf_node (Dir ents) = wf_dir ents"
| "wf_dir [] = True"
| "wf_dir ((name, child) # rest) =
     (name \<notin> set (map fst rest) \<and> wf_node child \<and> wf_dir rest)"

text \<open>No file stands where the source has a directory, and no directory where the source
  has a file.\<close>

fun compatible :: "node \<Rightarrow> node option \<Rightarrow> bool"
and compatibleEntries :: "dir \<Rightarrow> dir \<Rightarrow> bool" where
  "compatible src None = True"
| "compatible (File b) (Some (File b')) = True"
| "compatible (File b) (Some (Dir d)) = False"
| "compatible (Dir ents) (Some (File b')) = False"
| "compatible (Dir ents) (Some (Dir d)) = compatibleEntries ents d"
| "compatibleEntries [] d = True"
| "compatibleEntries ((name, child) # rest) d =
     (compatible child (map_of d name) \<and> compatibleEntries rest d)"

subsection \<open>The \<^verbatim>\<open>copy-public-to-dist\<close> hook\<close>

text \<open>
  \<^verbatim>\<open>copyRecursive(src, dest)\<close>, given what is at \<open>src\<close> and at \<open>dest\<close> (two separate
  subtrees: the script calls it on \<^verbatim>\<open>public\<close> and \<^verbatim>\<open>dist\<close>). It returns what is at
  \<open>dest\<close> afterwards and the error it threw, if any. The directory is read first, then the
  destination is made; the loop over the entries stops at the first error, and what was
  written before stays. The \<^verbatim>\<open>copyFile\<close> of the loop is \<open>copyFileInto\<close>: its source is
  an entry just listed and its target is in the directory just made.
\<close>

fun copyRecursive :: "node option \<Rightarrow> node option \<Rightarrow> node option \<times> errno option"
and copyEntries :: "dir \<Rightarrow> dir \<Rightarrow> dir \<times> errno option" where
  "copyRecursive None dest = (dest, Some ENOENT)"
| "copyRecursive (Some (File b)) dest = (dest, Some ENOTDIR)"
| "copyRecursive (Some (Dir entries)) dest =
     (case mkdir dest of
        Inl e \<Rightarrow> (dest, Some e)
      | Inr d \<Rightarrow> (case copyEntries entries d of (d', r) \<Rightarrow> (Some (Dir d'), r)))"
| "copyEntries [] d = (d, None)"
| "copyEntries ((name, child) # rest) d =
     (if isDirectory child then
        (case copyRecursive (Some child) (map_of d name) of
           (c', Some e) \<Rightarrow> (setChild name c' d, Some e)
         | (c', None) \<Rightarrow> copyEntries rest (setChild name c' d))
      else
        (case copyFileInto child d name of
           (d', Some e) \<Rightarrow> (d', Some e)
         | (d', None) \<Rightarrow> copyEntries rest d'))"

text \<open>The body of the loop for one entry, as a function of its own: the destination
  directory it leaves and the error it threw, if any. The loop goes on after it exactly when
  there is no error (\<open>copyEntries_Cons\<close> below).\<close>

definition stepResult :: "string \<Rightarrow> node \<Rightarrow> dir \<Rightarrow> dir \<times> errno option" where
  "stepResult name child d =
     (if isDirectory child then
        (case copyRecursive (Some child) (map_of d name) of (c', r) \<Rightarrow> (setChild name c' d, r))
      else copyFileInto child d name)"

text \<open>The hook, on the entries of the project directory (\<^verbatim>\<open>rootDir\<close>; the constant
  \<^verbatim>\<open>BUILD_DIRECTORY\<close> is written out as \<^verbatim>\<open>dist\<close> in the three hooks). Everything is
  inside one \<^verbatim>\<open>try\<close>; the \<^verbatim>\<open>catch\<close> prints to the error stream.\<close>

definition copyPublicOnEnd :: "dir \<Rightarrow> dir \<times> console list" where
  "copyPublicOnEnd root =
     (let publicDir = map_of root ''public'';
          distDir = map_of root ''dist''
      in if access publicDir then
           (case copyRecursive publicDir distDir of
              (dist', None) \<Rightarrow>
                (setChild ''dist'' dist' root,
                 [ConsoleLog ''Public directory contents copied to dist directory''])
            | (dist', Some e) \<Rightarrow>
                (setChild ''dist'' dist' root,
                 [ConsoleError ''Error in copyPublicPlugin:'' (SystemError e)]))
         else
           (root, [ConsoleLog ''Public directory does not exist. Skipping copy operation.'']))"

subsection \<open>The \<^verbatim>\<open>generate-dist-package-json\<close> hook\<close>

text \<open>A parsed JSON text. The type of numbers is left open.\<close>

datatype 'n json =
    JNull
  | JBool bool
  | JNumber 'n
  | JString string
  | JArray "'n json list"
  | JObject "(string \<times> 'n json) list"

text \<open>
  The five statements on an object, whose properties are listed in the order in which the
  language enumerates them: \<^verbatim>\<open>delete\<close> removes a property, the assignment replaces the
  value of \<^verbatim>\<open>browser\<close> where it stands or adds it after the others.
\<close>

definition trimManifest :: "(string \<times> 'n json) list \<Rightarrow> (string \<times> 'n json) list" where
  "trimManifest packageJson =
     AList.update ''browser'' (JString ''index.js'')
       (AList.delete ''publishConfig''
         (AList.delete ''files''
           (AList.delete ''devDependencies''
             (AList.delete ''scripts'' packageJson))))"

text \<open>
  The same statements on any parsed value (the script is a module, so strict):
  \<^verbatim>\<open>delete null.scripts\<close> throws; on a boolean, number or string the deletions do nothing
  and the assignment throws; on an array the assignment adds a property that
  \<^verbatim>\<open>JSON.stringify\<close> does not print, so the array is as before.
\<close>

fun modifyPackageJson :: "'n json \<Rightarrow> js_error + 'n json" where
  "modifyPackageJson (JObject packageJson) = Inr (JObject (trimManifest packageJson))"
| "modifyPackageJson (JArray xs) = Inr (JArray xs)"
| "modifyPackageJson JNull = Inl TypeError"
| "modifyPackageJson (JBool b) = Inl TypeError"
| "modifyPackageJson (JNumber n) = Inl TypeError"
| "modifyPackageJson (JString s) = Inl TypeError"

text \<open>
  The body of the \<^verbatim>\<open>try\<close>: read, parse, modify, write. \<open>parse\<close> is \<^verbatim>\<open>JSON.parse\<close> on the
  file's text (\<open>None\<close> when it throws), \<open>stringify v n\<close> is \<^verbatim>\<open>JSON.stringify(v, null, n)\<close>
  as written to the file.
\<close>

definition generatePackageJson ::
  "(bytes \<Rightarrow> 'n json option) \<Rightarrow> ('n json \<Rightarrow> nat \<Rightarrow> bytes) \<Rightarrow> dir \<Rightarrow> js_error + dir" where
  "generatePackageJson parse stringify root =
     (case readFile (map_of root ''package.json'') of
        Inl e \<Rightarrow> Inl (SystemError e)
      | Inr packageJsonContent \<Rightarrow>
          (case parse packageJsonContent of
             None \<Rightarrow> Inl SyntaxError
           | Some parsed \<Rightarrow>
               (case modifyPackageJson parsed of
                  Inl e \<Rightarrow> Inl e
                | Inr packageJson \<Rightarrow>
                    (case writeFile (map_of root ''dist'') ''package.json''
                            (stringify packageJson 2) of
                       Inl e \<Rightarrow> Inl (SystemError e)
                     | Inr dist' \<Rightarrow> Inr (AList.update ''dist'' (Dir dist') root)))))"

text \<open>The hook: the \<^verbatim>\<open>try\<close> with its \<^verbatim>\<open>catch\<close>.\<close>

definition generatePackageJsonOnEnd ::
  "(bytes \<Rightarrow> 'n json option) \<Rightarrow> ('n json \<Rightarrow> nat \<Rightarrow> bytes) \<Rightarrow> dir \<Rightarrow> dir \<times> console list" where
  "generatePackageJsonOnEnd parse stringify root =
     (case generatePackageJson parse stringify root of
        Inr root' \<Rightarrow> (root', [ConsoleLog ''package.json generated in dist directory''])
      | Inl error \<Rightarrow> (root, [ConsoleError ''Error generating package.json:'' error]))"

subsection \<open>The \<^verbatim>\<open>copy-readme-to-dist\<close> hook\<close>

text \<open>The callback starts the copy and attaches the two handlers to its promise, without
  awaiting it; the copy is taken where the callback stands among the others.\<close>

definition copyReadmeOnEnd :: "dir \<Rightarrow> dir \<times> console list" where
  "copyReadmeOnEnd root =
     (case copyFile (map_of root ''README.md'') (map_of root ''dist'') ''README.md'' of
        (dist', None) \<Rightarrow>
          (setChild ''dist'' dist' root,
           [ConsoleLog ''README.md copied to dist directory''])
      | (dist', Some error) \<Rightarrow>
          (setChild ''dist'' dist' root,
           [ConsoleError ''Error copying README.md:'' (SystemError error)]))"

subsection \<open>The build context\<close>


datatype plugin = SassPlugin | CopyPublicPlugin | GeneratePackageJsonPlugin | CopyReadmePlugin

text \<open>The \<^verbatim>\<open>plugins\<close> array of the context.\<close>

definition plugins :: "bool \<Rightarrow> plugin list" where
  "plugins production =
     [SassPlugin, CopyPublicPlugin] @
     (if production then [GeneratePackageJsonPlugin, CopyReadmePlugin] else [])"

text \<open>The \<^verbatim>\<open>onEnd\<close> callback of each plugin of the script. The Sass plugin is an external
  package; it is taken to leave the project directory as it is when a build ends.\<close>

fun onEnd ::
  "(bytes \<Rightarrow> 'n json option) \<Rightarrow> ('n json \<Rightarrow> nat \<Rightarrow> bytes) \<Rightarrow> plugin \<Rightarrow> dir \<Rightarrow> dir \<times> console list" where
  "onEnd parse stringify SassPlugin root = (root, [])"
| "onEnd parse stringify CopyPublicPlugin root = copyPublicOnEnd root"
| "onEnd parse stringify GeneratePackageJsonPlugin root =
     generatePackageJsonOnEnd parse stringify root"
| "onEnd parse stringify CopyReadmePlugin root = copyReadmeOnEnd root"

text \<open>The end of a build: the callbacks of the registered plugins, one after the other in
  the order of registration, each on the directory the one before has left.\<close>

fun runOnEnd ::
  "(bytes \<Rightarrow> 'n json option) \<Rightarrow> ('n json \<Rightarrow> nat \<Rightarrow> bytes) \<Rightarrow> plugin list \<Rightarrow> dir \<Rightarrow> dir \<times> console list" where
  "runOnEnd parse stringify [] root = (root, [])"
| "runOnEnd parse stringify (p # ps) root =
     (case onEnd parse stringify p root of
        (root', out) \<Rightarrow>
          (case runOnEnd parse stringify ps root' of
             (root'', out') \<Rightarrow> (root'', out @ out')))"

subsection \<open>The report of the served files\<close>

definition BUILD_DIRECTORY :: string where
  "BUILD_DIRECTORY = ''dist''"

definition SERVE_PORT :: nat where
  "SERVE_PORT = 3000"

text \<open>A number in a template literal: its decimal digits.\<close>

fun decimal :: "nat \<Rightarrow> string" where
  "decimal n =
     (if n < 10 then [char_of (48 + n)]
      else decimal (n div 10) @ [char_of (48 + n mod 10)])"

definition SERVE_ORIGIN :: string where
  "SERVE_ORIGIN = ''http://localhost:'' @ decimal SERVE_PORT"

text \<open>\<^verbatim>\<open>s.endsWith(searchString)\<close>.\<close>

definition endsWith :: "string \<Rightarrow> string \<Rightarrow> bool" where
  "endsWith s searchString =
     (length searchString \<le> length s \<and>
      drop (length s - length searchString) s = searchString)"

text \<open>\<^verbatim>\<open>s.split(sep)\<close> for a separator of one character (\<^verbatim>\<open>path.sep\<close> is \<^verbatim>\<open>/\<close> or
  \<^verbatim>\<open>\\<close>): the pieces between the separators, at least one.\<close>

fun split :: "char \<Rightarrow> string \<Rightarrow> string list" where
  "split sep [] = [ [] ]"
| "split sep (c # cs) =
     (if c = sep then [] # split sep cs
      else (case split sep cs of
              w # ws \<Rightarrow> (c # w) # ws
            | [] \<Rightarrow> [ [c] ]))"

text \<open>\<^verbatim>\<open>paths.join(s)\<close>.\<close>

fun joinWith :: "string \<Rightarrow> string list \<Rightarrow> string" where
  "joinWith s [] = []"
| "joinWith s [x] = x"
| "joinWith s (x # y # ys) = x @ s @ joinWith s (y # ys)"

text \<open>\<^verbatim>\<open>paths[0] = v\<close>: an empty array would get its first element.\<close>

fun assignFirst :: "'a \<Rightarrow> 'a list \<Rightarrow> 'a list" where
  "assignFirst v [] = [v]"
| "assignFirst v (x # xs) = v # xs"

text \<open>\<^verbatim>\<open>path.join(dirPath, name)\<close> for a directory path and the name of one of its
  entries: nothing is there to normalise, the two are put together with the separator.\<close>

definition join :: "char \<Rightarrow> string \<Rightarrow> string \<Rightarrow> string" where
  "join sep dirPath name = dirPath @ sep # name"

text \<open>What the array built in \<^verbatim>\<open>getFiles\<close> holds: a path, or the array that a recursive
  call returned.\<close>

datatype item = Path string | Arr "item list"

text \<open>\<^verbatim>\<open>files.flat()\<close>: the arrays among the elements are opened, one level deep.\<close>

fun flat :: "item list \<Rightarrow> item list" where
  "flat [] = []"
| "flat (Path p # xs) = Path p # flat xs"
| "flat (Arr ys # xs) = ys @ flat xs"

text \<open>\<^verbatim>\<open>getFiles(dirPath)\<close>, given what is at \<open>dirPath\<close>; \<open>mapDirents\<close> is the
  \<^verbatim>\<open>map\<close> over the listing. \<^verbatim>\<open>readdirSync\<close> throws where there is no directory.\<close>

fun getFiles :: "char \<Rightarrow> string \<Rightarrow> node option \<Rightarrow> errno + item list"
and mapDirents :: "char \<Rightarrow> string \<Rightarrow> dir \<Rightarrow> errno + item list" where
  "getFiles sep dirPath None = Inl ENOENT"
| "getFiles sep dirPath (Some (File b)) = Inl ENOTDIR"
| "getFiles sep dirPath (Some (Dir ents)) =
     (case mapDirents sep dirPath ents of
        Inl e \<Rightarrow> Inl e
      | Inr files \<Rightarrow> Inr (flat files))"
| "mapDirents sep dirPath [] = Inr []"
| "mapDirents sep dirPath ((name, child) # rest) =
     (let path = join sep dirPath name in
      case (if isDirectory child
            then (case getFiles sep path (Some child) of
                    Inl e \<Rightarrow> Inl e
                  | Inr files \<Rightarrow> Inr (Arr files))
            else Inr (Path path)) of
        Inl e \<Rightarrow> Inl e
      | Inr x \<Rightarrow>
          (case mapDirents sep dirPath rest of
             Inl e \<Rightarrow> Inl e
           | Inr xs \<Rightarrow> Inr (x # xs)))"

text \<open>A row of the table.\<close>

record served =
  fileLocation :: string
  importSuggestion :: string

text \<open>The two template literals for the import suggestion.\<close>

definition linkTag :: "string \<Rightarrow> string" where
  \<open>linkTag location = ''<link href="'' @ location @ ''" rel="stylesheet" type="text/css"/>''\<close>

definition scriptTag :: "string \<Rightarrow> string" where
  \<open>scriptTag location = ''<script defer src="'' @ location @ ''"></script>''\<close>

text \<open>The callback of \<^verbatim>\<open>files.map\<close> on a path: nothing for a source map, else the row.\<close>

definition fileInfo :: "char \<Rightarrow> string \<Rightarrow> served option" where
  "fileInfo sep file =
     (if endsWith file ''.map'' then None
      else
        let paths = split sep file;
            paths = assignFirst SERVE_ORIGIN paths;
            location = joinWith ''/'' paths;
            tag = (if endsWith location ''.css'' then linkTag location else scriptTag location)
        in Some \<lparr>fileLocation = location, importSuggestion = tag\<rparr>)"

text \<open>\<^verbatim>\<open>files.map(...)\<close>: an element that is an array has no \<^verbatim>\<open>endsWith\<close>.\<close>

fun mapFiles :: "char \<Rightarrow> item list \<Rightarrow> js_error + served option list" where
  "mapFiles sep [] = Inr []"
| "mapFiles sep (Arr xs # rest) = Inl TypeError"
| "mapFiles sep (Path file # rest) =
     (case mapFiles sep rest of
        Inl e \<Rightarrow> Inl e
      | Inr infos \<Rightarrow> Inr (fileInfo sep file # infos))"

text \<open>\<^verbatim>\<open>.filter(Boolean)\<close>: the rows stay, \<^verbatim>\<open>undefined\<close> goes.\<close>

fun filterBoolean :: "'a option list \<Rightarrow> 'a list" where
  "filterBoolean [] = []"
| "filterBoolean (None # xs) = filterBoolean xs"
| "filterBoolean (Some x # xs) = x # filterBoolean xs"

text \<open>The rows computed from a list of files (what \<^verbatim>\<open>console.table\<close> is given).\<close>

definition filesInfo :: "char \<Rightarrow> item list \<Rightarrow> js_error + served list" where
  "filesInfo sep files =
     (case mapFiles sep files of
        Inl e \<Rightarrow> Inl e
      | Inr infos \<Rightarrow> Inr (filterBoolean infos))"

text \<open>\<^verbatim>\<open>logServedFiles()\<close>, on the entries of the working directory, with the separator
  of the host: the table it prints, or the error it throws.\<close>

definition logServedFiles :: "char \<Rightarrow> dir \<Rightarrow> js_error + served list" where
  "logServedFiles sep cwd =
     (case getFiles sep BUILD_DIRECTORY (map_of cwd BUILD_DIRECTORY) of
        Inl e \<Rightarrow> Inl (SystemError e)
      | Inr files \<Rightarrow> filesInfo sep files)"

subsection \<open>The listing as the specification words it\<close>

text \<open>
  The files below a directory as relative paths (lists of names): the entries in the order
  of the listing, a file as itself, a directory replaced by the files below it, before the
  entries that follow it. A directory is not listed.
\<close>

fun leafFiles :: "node \<Rightarrow> string list list"
and leafFilesIn :: "dir \<Rightarrow> string list list" where
  "leafFiles (File b) = [ [] ]"
| "leafFiles (Dir ents) = leafFilesIn ents"
| "leafFilesIn [] = []"
| "leafFilesIn ((name, child) # rest) = map ((#) name) (leafFiles child) @ leafFilesIn rest"

text \<open>No name in the tree contains the separator of the host.\<close>

fun validNames :: "char \<Rightarrow> node \<Rightarrow> bool"
and validEntries :: "char \<Rightarrow> dir \<Rightarrow> bool" where
  "validNames sep (File b) = True"
| "validNames sep (Dir ents) = validEntries sep ents"
| "validEntries sep [] = True"
| "validEntries sep ((name, child) # rest) =
     (sep \<notin> set name \<and> validNames sep child \<and> validEntries sep rest)"

text \<open>The path that \<^verbatim>\<open>getFiles\<close> builds for a relative path below \<open>dirPath\<close>: the
  directory path and the names, with the separator of the host between them.\<close>

definition pathOf :: "char \<Rightarrow> string \<Rightarrow> string list \<Rightarrow> item" where
  "pathOf sep dirPath p = Path (joinWith [sep] (dirPath # p))"

text \<open>The URL of a relative path: the origin and the names, with \<^verbatim>\<open>/\<close> between them.\<close>

definition urlOf :: "string list \<Rightarrow> string" where
  "urlOf p = joinWith ''/'' (SERVE_ORIGIN # p)"

text \<open>The row for a relative path: its URL, with a stylesheet link when the file name ends
  in \<^verbatim>\<open>.css\<close> and a deferred script tag otherwise.\<close>

definition servedRow :: "string list \<Rightarrow> served" where
  "servedRow p =
     \<lparr>fileLocation = urlOf p,
      importSuggestion = (if endsWith (last p) ''.css'' then linkTag (urlOf p)
                          else scriptTag (urlOf p))\<rparr>"

text \<open>Whether the path built for a relative path is a source map.\<close>

definition isSourceMap :: "char \<Rightarrow> string list \<Rightarrow> bool" where
  "isSourceMap sep p = endsWith (joinWith [sep] (BUILD_DIRECTORY # p)) ''.map''"

section \<open>Properties\<close>

subsection \<open>The trimmed manifest\<close>

lemma map_of_trimManifest:
  "map_of (trimManifest M) k =
     (if k = ''browser'' then Some (JString ''index.js'')
      else if k \<in> {''scripts'', ''devDependencies'', ''files'', ''publishConfig''} then None
      else map_of M k)"
  by (simp add: trimManifest_def update_conv' delete_conv')

text \<open>
  C1. For every manifest \<open>M\<close> that is a parsed JSON object, the modification succeeds and
  yields the object \<open>trimManifest M\<close>, which has none of the keys \<^verbatim>\<open>scripts\<close>,
  \<^verbatim>\<open>devDependencies\<close>, \<^verbatim>\<open>files\<close>, \<^verbatim>\<open>publishConfig\<close>, maps \<^verbatim>\<open>browser\<close> to the string
  \<^verbatim>\<open>index.js\<close>, and maps every other key to what \<open>M\<close> maps it to (nothing, where \<open>M\<close>
  has no such key).
\<close>

theorem manifest_trimmed:
  "modifyPackageJson (JObject M) = Inr (JObject (trimManifest M)) \<and>
   (\<forall>k \<in> {''scripts'', ''devDependencies'', ''files'', ''publishConfig''}.
      map_of (trimManifest M) k = None \<and> k \<notin> fst ` set (trimManifest M)) \<and>
   map_of (trimManifest M) ''browser'' = Some (JString ''index.js'') \<and>
   (\<forall>k. k \<notin> {''scripts'', ''devDependencies'', ''files'', ''publishConfig'', ''browser''} \<longrightarrow>
      map_of (trimManifest M) k = map_of M k)"
proof -
  have none: "map_of (trimManifest M) k = None \<Longrightarrow> k \<notin> fst ` set (trimManifest M)" for k
    by (simp add: map_of_eq_None_iff)
  show ?thesis
    using none by (simp add: map_of_trimManifest)
qed

theorem manifest_trimmed_witness:
  "modifyPackageJson
     (JObject [(''name'', JString ''lib''),
               (''scripts'', JObject [(''build'', JString ''node bin/build.js'')]),
               (''version'', JNumber (1::nat)),
               (''files'', JArray [JString ''dist''])])
   = Inr (JObject [(''name'', JString ''lib''),
                   (''version'', JNumber 1),
                   (''browser'', JString ''index.js'')])"
  using manifest_trimmed
    [of "[(''name'', JString ''lib''),
          (''scripts'', JObject [(''build'', JString ''node bin/build.js'')]),
          (''version'', JNumber (1::nat)),
          (''files'', JArray [JString ''dist''])]"]
  by (simp add: trimManifest_def)

subsection \<open>The recursive copy\<close>

lemma file_at_Nil: "file_at n [] = (case n of Some (File b) \<Rightarrow> Some b | _ \<Rightarrow> None)"
  by (simp add: file_at_def)

lemma file_at_Cons_Dir: "file_at (Some (Dir ents)) (x # xs) = file_at (map_of ents x) xs"
  by (simp add: file_at_def)

lemma file_at_Cons_File: "file_at (Some (File b)) (x # xs) = None"
  by (simp add: file_at_def)

lemma file_at_None: "file_at None p = None"
  by (cases p) (simp_all add: file_at_def)

lemma file_at_Dir:
  "file_at (Some (Dir ents)) p = (case p of [] \<Rightarrow> None | x # xs \<Rightarrow> file_at (map_of ents x) xs)"
  by (cases p) (simp_all add: file_at_def)

lemma file_at_File:
  "file_at (Some (File b)) p = (case p of [] \<Rightarrow> Some b | x # xs \<Rightarrow> None)"
  by (cases p) (simp_all add: file_at_def)

lemma map_of_setChild:
  "map_of (setChild name c d) x =
     (if x = name then (case c of None \<Rightarrow> map_of d x | Some n \<Rightarrow> Some n) else map_of d x)"
  by (cases c) (simp_all add: update_conv')

lemma map_of_not_listed: "name \<notin> set (map fst rest) \<Longrightarrow> map_of rest name = None"
  by (simp add: map_of_eq_None_iff)

lemma copyEntries_Cons:
  "copyEntries ((name, child) # rest) d =
     (case stepResult name child d of
        (d1, Some e) \<Rightarrow> (d1, Some e)
      | (d1, None) \<Rightarrow> copyEntries rest d1)"
  by (simp add: stepResult_def split: prod.splits option.splits)

lemma stepResult_other:
  "x \<noteq> name \<Longrightarrow> map_of (fst (stepResult name child d)) x = map_of d x"
  by (cases child)
     (auto simp: stepResult_def map_of_setChild update_conv' delete_conv'
           split: prod.splits option.splits node.splits)

lemma stepResult_file:
  "\<not> isDirectory child \<Longrightarrow>
   stepResult name child d =
     (case map_of d name of
        Some (Dir sub) \<Rightarrow> (d, Some EISDIR)
      | _ \<Rightarrow> (AList.update name child d, None))"
  by (cases child) (auto simp: stepResult_def split: option.splits node.splits)



lemma file_at_empty: "file_at (Some (Dir [])) p = None"
  by (cases p) (simp_all add: file_at_Nil file_at_Cons_Dir file_at_None)

lemma mkdir_files: "mkdir dest = Inr d \<Longrightarrow> file_at (Some (Dir d)) p = file_at dest p"
  by (cases dest rule: mkdir.cases) (simp_all add: file_at_None file_at_empty)

lemma file_at_not_listed:
  "name \<notin> set (map fst rest) \<Longrightarrow> file_at (Some (Dir rest)) (name # xs) = None"
  by (simp add: file_at_Cons_Dir map_of_not_listed file_at_None)

text \<open>The effect of one step on the files at and below the entry's name.\<close>

lemma stepResult_dir:
  "isDirectory child \<Longrightarrow> copyRecursive (Some child) (map_of d name) = (c', r) \<Longrightarrow>
   stepResult name child d = (setChild name c' d, r)"
  by (simp add: stepResult_def)

lemma stepResult_frame:
  assumes rec: "isDirectory child \<Longrightarrow>
      \<forall>p. file_at (Some child) p = None \<longrightarrow>
          file_at (fst (copyRecursive (Some child) (map_of d name))) p = file_at (map_of d name) p"
    and none: "file_at (Some child) xs = None"
  shows "file_at (map_of (fst (stepResult name child d)) name) xs = file_at (map_of d name) xs"
proof (cases "isDirectory child")
  case True
  obtain c' r where c: "copyRecursive (Some child) (map_of d name) = (c', r)"
    by (cases "copyRecursive (Some child) (map_of d name)")
  have "file_at c' xs = file_at (map_of d name) xs"
    using rec [OF True] none c by simp
  then show ?thesis
    by (cases c') (simp_all add: stepResult_dir [OF True c] update_conv')
next
  case False
  then obtain b where File: "child = File b" by (cases child) auto
  then have "xs \<noteq> []" using none by (auto simp: file_at_Nil)
  then obtain y ys where xs: "xs = y # ys" by (cases xs) auto
  show ?thesis
    using File xs
    by (auto simp: stepResult_file update_conv' file_at_Cons_File file_at_Cons_Dir file_at_None
             split: option.splits node.splits)
qed

lemma stepResult_success:
  assumes rec: "isDirectory child \<Longrightarrow>
      snd (copyRecursive (Some child) (map_of d name)) = None \<longrightarrow>
      (\<forall>p. file_at (fst (copyRecursive (Some child) (map_of d name))) p
            = (file_at (map_of d name) ++ file_at (Some child)) p)"
    and ok: "snd (stepResult name child d) = None"
  shows "file_at (map_of (fst (stepResult name child d)) name) xs
           = (file_at (map_of d name) ++ file_at (Some child)) xs"
proof (cases "isDirectory child")
  case True
  obtain c' r where c: "copyRecursive (Some child) (map_of d name) = (c', r)"
    by (cases "copyRecursive (Some child) (map_of d name)")
  have r: "r = None"
    using ok by (simp add: stepResult_dir [OF True c])
  have eq: "file_at c' p = (file_at (map_of d name) ++ file_at (Some child)) p" for p
    using rec [OF True] c r by simp
  show ?thesis
  proof (cases c')
    case None
    then have "(file_at (map_of d name) ++ file_at (Some child)) xs = None"
      using eq [of xs] by (simp add: file_at_None)
    then have "file_at (map_of d name) xs = None"
      by simp
    then show ?thesis
      using None eq [of xs]
      by (simp add: stepResult_dir [OF True c] file_at_None)
  next
    case (Some n)
    then show ?thesis
      using eq [of xs] by (simp add: stepResult_dir [OF True c] update_conv')
  qed
next
  case False
  then obtain b where File: "child = File b" by (cases child) auto
  show ?thesis
    using File ok
    by (cases xs)
       (auto simp: stepResult_file update_conv' file_at_Nil file_at_Cons_File file_at_Cons_Dir
                   file_at_None map_add_def
             split: option.splits node.splits)
qed

lemma copy_effect:
  "(case src of Some s \<Rightarrow> wf_node s | None \<Rightarrow> True) \<longrightarrow>
     (\<forall>p. file_at src p = None \<longrightarrow> file_at (fst (copyRecursive src dest)) p = file_at dest p) \<and>
     (snd (copyRecursive src dest) = None \<longrightarrow>
        (\<forall>p. file_at (fst (copyRecursive src dest)) p = (file_at dest ++ file_at src) p))"
  "wf_dir ents \<longrightarrow>
     (\<forall>p. file_at (Some (Dir ents)) p = None \<longrightarrow>
          file_at (Some (Dir (fst (copyEntries ents d)))) p = file_at (Some (Dir d)) p) \<and>
     (snd (copyEntries ents d) = None \<longrightarrow>
        (\<forall>p. file_at (Some (Dir (fst (copyEntries ents d)))) p
              = (file_at (Some (Dir d)) ++ file_at (Some (Dir ents))) p))"
proof (induction src dest and ents d rule: copyRecursive_copyEntries.induct)
  case (1 dest)
  show ?case by simp
next
  case (2 b dest)
  show ?case by simp
next
  case (3 entries dest)
  show ?case
  proof (cases "mkdir dest")
    case (Inl e)
    then show ?thesis by simp
  next
    case (Inr d)
    have same: "file_at (Some (Dir d)) p = file_at dest p" for p
      using Inr by (rule mkdir_files)
    then have "file_at (Some (Dir d)) = file_at dest" by (rule ext)
    moreover obtain d' r where c: "copyEntries entries d = (d', r)"
      by (cases "copyEntries entries d")
    ultimately show ?thesis
      using 3 [OF Inr] Inr by simp
  qed
next
  case (4 d)
  show ?case by (simp add: file_at_empty)
next
  case (5 name child rest d)
  show ?case
  proof
    assume wf: "wf_dir ((name, child) # rest)"
    then have fresh: "name \<notin> set (map fst rest)" and wfc: "wf_node child" and wfr: "wf_dir rest"
      by simp_all
    obtain d1 r1 where step: "stepResult name child d = (d1, r1)"
      by (cases "stepResult name child d")
    have cons: "copyEntries ((name, child) # rest) d
        = (if r1 = None then copyEntries rest d1 else (d1, r1))"
      unfolding copyEntries_Cons step by (cases r1) simp_all
    have other: "map_of d1 x = map_of d x" if "x \<noteq> name" for x
      using stepResult_other [OF that, of child d] step by simp
    have at_name_frame: "file_at (map_of d1 name) xs = file_at (map_of d name) xs"
      if "file_at (Some child) xs = None" for xs
      using stepResult_frame [of child d name xs] "5.IH"(1) wfc that step by simp
    have at_name_success: "file_at (map_of d1 name) xs
        = (file_at (map_of d name) ++ file_at (Some child)) xs" if "r1 = None" for xs
      using stepResult_success [of child d name xs] "5.IH"(1) wfc that step by simp
    have rest_frame: "file_at (Some (Dir (fst (copyEntries rest d1)))) p = file_at (Some (Dir d1)) p"
      if "r1 = None" "file_at (Some (Dir rest)) p = None" for p
    proof (cases "isDirectory child")
      case True
      obtain c' r where c: "copyRecursive (Some child) (map_of d name) = (c', r)"
        by (cases "copyRecursive (Some child) (map_of d name)")
      then have "d1 = setChild name c' d" "r = None"
        using stepResult_dir [OF True c] step that(1) by simp_all
      then show ?thesis
        using "5.IH"(2) [OF True c [symmetric]] wfr that(2) by simp
    next
      case False
      then have "(d1, r1) = copyFileInto child d name"
        using step by (simp add: stepResult_def)
      then show ?thesis
        using "5.IH"(3) [OF False _ that(1)] wfr that(2) by simp
    qed
    have rest_success: "file_at (Some (Dir (fst (copyEntries rest d1)))) p
        = (file_at (Some (Dir d1)) ++ file_at (Some (Dir rest))) p"
      if "r1 = None" "snd (copyEntries rest d1) = None" for p
    proof (cases "isDirectory child")
      case True
      obtain c' r where c: "copyRecursive (Some child) (map_of d name) = (c', r)"
        by (cases "copyRecursive (Some child) (map_of d name)")
      then have "d1 = setChild name c' d" "r = None"
        using stepResult_dir [OF True c] step that(1) by simp_all
      then show ?thesis
        using "5.IH"(2) [OF True c [symmetric]] wfr that(2) by simp
    next
      case False
      then have "(d1, r1) = copyFileInto child d name"
        using step by (simp add: stepResult_def)
      then show ?thesis
        using "5.IH"(3) [OF False _ that(1)] wfr that(2) by simp
    qed
    have frame: "file_at (Some (Dir (fst (copyEntries ((name, child) # rest) d)))) p
        = file_at (Some (Dir d)) p"
      if none: "file_at (Some (Dir ((name, child) # rest))) p = None" for p
    proof (cases p)
      case Nil
      then show ?thesis by (simp add: file_at_Nil)
    next
      case (Cons x xs)
      have d1: "file_at (Some (Dir d1)) p = file_at (Some (Dir d)) p"
      proof (cases "x = name")
        case True
        then show ?thesis
          using none Cons at_name_frame [of xs] by (simp add: file_at_Cons_Dir)
      next
        case False
        then show ?thesis
          using Cons other [of x] by (simp add: file_at_Cons_Dir)
      qed
      have rest: "file_at (Some (Dir rest)) p = None"
      proof (cases "x = name")
        case True
        then show ?thesis
          using Cons fresh by (simp add: file_at_not_listed)
      next
        case False
        then show ?thesis
          using none Cons by (simp add: file_at_Cons_Dir)
      qed
      show ?thesis
      proof (cases r1)
        case None
        then show ?thesis
          using rest_frame [OF None rest] d1 by (simp add: cons del: copyEntries.simps)
      next
        case (Some e)
        then show ?thesis
          using d1 by (simp add: cons del: copyEntries.simps)
      qed
    qed
    have success: "file_at (Some (Dir (fst (copyEntries ((name, child) # rest) d)))) p
        = (file_at (Some (Dir d)) ++ file_at (Some (Dir ((name, child) # rest)))) p"
      if ok: "snd (copyEntries ((name, child) # rest) d) = None" for p
    proof -
      have r1: "r1 = None"
        using ok by (cases r1) (simp_all add: cons del: copyEntries.simps)
      then have ok': "snd (copyEntries rest d1) = None"
        using ok by (simp add: cons del: copyEntries.simps)
      have "file_at (Some (Dir (fst (copyEntries ((name, child) # rest) d)))) p
          = (file_at (Some (Dir d1)) ++ file_at (Some (Dir rest))) p"
        using rest_success [OF r1 ok'] r1 by (simp add: cons del: copyEntries.simps)
      also have "\<dots> = (file_at (Some (Dir d)) ++ file_at (Some (Dir ((name, child) # rest)))) p"
      proof (cases p)
        case Nil
        then show ?thesis by (simp add: file_at_Nil map_add_def)
      next
        case (Cons x xs)
        show ?thesis
        proof (cases "x = name")
          case True
          then show ?thesis
            using Cons map_of_not_listed [OF fresh] at_name_success [OF r1, of xs]
            by (simp add: map_add_def file_at_None file_at_Cons_Dir split: option.splits)
        next
          case False
          then show ?thesis
            using Cons other [of x] by (simp add: map_add_def file_at_Cons_Dir split: option.splits)
        qed
      qed
      finally show ?thesis .
    qed
    show "(\<forall>p. file_at (Some (Dir ((name, child) # rest))) p = None \<longrightarrow>
            file_at (Some (Dir (fst (copyEntries ((name, child) # rest) d)))) p
              = file_at (Some (Dir d)) p) \<and>
          (snd (copyEntries ((name, child) # rest) d) = None \<longrightarrow>
            (\<forall>p. file_at (Some (Dir (fst (copyEntries ((name, child) # rest) d)))) p
               = (file_at (Some (Dir d)) ++ file_at (Some (Dir ((name, child) # rest)))) p))"
      using frame success by blast
  qed
qed


lemma compatibleEntries_cong:
  "(\<And>x. x \<in> set (map fst ents) \<Longrightarrow> map_of d x = map_of d' x) \<Longrightarrow>
   compatibleEntries ents d = compatibleEntries ents d'"
  by (induction ents) auto

lemma compatibleEntries_empty: "compatibleEntries ents []"
  by (induction ents) auto

lemma copy_completes:
  "\<forall>s. src = Some s \<longrightarrow> isDirectory s \<longrightarrow> wf_node s \<longrightarrow>
     (snd (copyRecursive src dest) = None) = compatible s dest"
  "wf_dir ents \<longrightarrow> (snd (copyEntries ents d) = None) = compatibleEntries ents d"
proof (induction src dest and ents d rule: copyRecursive_copyEntries.induct)
  case (1 dest)
  show ?case by simp
next
  case (2 b dest)
  show ?case by simp
next
  case (3 entries dest)
  show ?case
  proof (cases dest rule: mkdir.cases)
    case 1
    then show ?thesis
      using 3 [of "[]"] by (cases "copyEntries entries []") (simp add: compatibleEntries_empty)
  next
    case (2 d)
    then show ?thesis
      using 3 [of d] by (cases "copyEntries entries d") simp
  next
    case (3 b)
    then show ?thesis by simp
  qed
next
  case (4 d)
  show ?case by simp
next
  case (5 name child rest d)
  show ?case
  proof
    assume wf: "wf_dir ((name, child) # rest)"
    then have fresh: "name \<notin> set (map fst rest)" and wfc: "wf_node child" and wfr: "wf_dir rest"
      by simp_all
    obtain d1 r1 where step: "stepResult name child d = (d1, r1)"
      by (cases "stepResult name child d")
    have cons: "copyEntries ((name, child) # rest) d
        = (if r1 = None then copyEntries rest d1 else (d1, r1))"
      unfolding copyEntries_Cons step by (cases r1) simp_all
    have head: "(r1 = None) = compatible child (map_of d name)"
    proof (cases "isDirectory child")
      case True
      obtain c' r where c: "copyRecursive (Some child) (map_of d name) = (c', r)"
        by (cases "copyRecursive (Some child) (map_of d name)")
      then have "r1 = r"
        using stepResult_dir [OF True c] step by simp
      then show ?thesis
        using "5.IH"(1) [OF True] True wfc c by simp
    next
      case False
      then obtain b where "child = File b" by (cases child) auto
      then show ?thesis
        using step by (auto simp: stepResult_file split: option.splits node.splits)
    qed
    have other: "map_of d1 x = map_of d x" if "x \<in> set (map fst rest)" for x
    proof -
      have "x \<noteq> name" using that fresh by auto
      then show ?thesis
        using stepResult_other [of x name child d] step by simp
    qed
    have same: "compatibleEntries rest d1 = compatibleEntries rest d"
      by (rule compatibleEntries_cong) (rule other)
    have tail: "(snd (copyEntries rest d1) = None) = compatibleEntries rest d1" if "r1 = None"
    proof (cases "isDirectory child")
      case True
      obtain c' r where c: "copyRecursive (Some child) (map_of d name) = (c', r)"
        by (cases "copyRecursive (Some child) (map_of d name)")
      then have "d1 = setChild name c' d" "r = None"
        using stepResult_dir [OF True c] step that by simp_all
      then show ?thesis
        using "5.IH"(2) [OF True c [symmetric]] wfr by simp
    next
      case False
      then have "(d1, r1) = copyFileInto child d name"
        using step by (simp add: stepResult_def)
      then show ?thesis
        using "5.IH"(3) [OF False _ that] wfr by simp
    qed
    show "(snd (copyEntries ((name, child) # rest) d) = None)
            = compatibleEntries ((name, child) # rest) d"
    proof (cases r1)
      case None
      then show ?thesis
        using tail [OF None] same head by (simp add: cons del: copyEntries.simps)
    next
      case (Some e)
      then show ?thesis
        using head by (simp add: cons del: copyEntries.simps)
    qed
  qed
qed

lemma copy_frame:
  "wf_node src \<Longrightarrow> file_at (Some src) p = None \<Longrightarrow>
   file_at (fst (copyRecursive (Some src) dest)) p = file_at dest p"
  using copy_effect(1) [of "Some src" dest] by simp

lemma copy_success:
  "wf_node src \<Longrightarrow> snd (copyRecursive (Some src) dest) = None \<Longrightarrow>
   file_at (fst (copyRecursive (Some src) dest)) = file_at dest ++ file_at (Some src)"
  using copy_effect(1) [of "Some src" dest] by (intro ext) simp

lemma copy_completes_iff:
  "wf_node src \<Longrightarrow> isDirectory src \<Longrightarrow>
   (snd (copyRecursive (Some src) dest) = None) = compatible src dest"
  using copy_completes(1) [of "Some src" dest] by simp

text \<open>
  C8. The copy adds and never removes: for every source tree (no name listed twice in a
  directory) and every destination, a relative path at which the source has no file holds
  after the copy exactly the file it held before (the same bytes, or still none), whether
  the copy completes or stops with an error. So no file outside the source's set of file
  paths is deleted, created or modified.
\<close>

theorem copy_leaves_other_files:
  assumes "wf_node src" and "file_at (Some src) p = None"
  shows "file_at (fst (copyRecursive (Some src) dest)) p = file_at dest p"
  using assms by (rule copy_frame)

theorem copy_leaves_other_files_witness:
  "wf_node (Dir [(''img'', Dir [(''logo.png'', File ''PNG'')]), (''index.js'', Dir [])]) \<and>
   file_at (Some (Dir [(''img'', Dir [(''logo.png'', File ''PNG'')]), (''index.js'', Dir [])]))
     [''img'', ''old.png''] = None \<and>
   copyRecursive (Some (Dir [(''img'', Dir [(''logo.png'', File ''PNG'')]), (''index.js'', Dir [])]))
     (Some (Dir [(''img'', Dir [(''old.png'', File ''OLD'')]), (''index.js'', File ''JS'')]))
     = (Some (Dir [(''img'', Dir [(''old.png'', File ''OLD''), (''logo.png'', File ''PNG'')]),
                   (''index.js'', File ''JS'')]), Some EEXIST) \<and>
   file_at (fst (copyRecursive
       (Some (Dir [(''img'', Dir [(''logo.png'', File ''PNG'')]), (''index.js'', Dir [])]))
       (Some (Dir [(''img'', Dir [(''old.png'', File ''OLD'')]), (''index.js'', File ''JS'')]))))
     [''img'', ''old.png''] = Some ''OLD''"
  using copy_leaves_other_files
    [of "Dir [(''img'', Dir [(''logo.png'', File ''PNG'')]), (''index.js'', Dir [])]"
        "[''img'', ''old.png'']"
        "Some (Dir [(''img'', Dir [(''old.png'', File ''OLD'')]), (''index.js'', File ''JS'')])"]
  by (simp add: file_at_def)

text \<open>
  C2, as stated, fails: a file that the destination held before the copy is still there
  afterwards, so the destination's set of file paths is not the source's. Here the
  destination holds \<^verbatim>\<open>index.js\<close> and the source only \<^verbatim>\<open>favicon.ico\<close>.
\<close>

theorem copy_file_set_counterexample:
  "wf_node (Dir [(''favicon.ico'', File ''ICO'')]) \<and>
   copyRecursive (Some (Dir [(''favicon.ico'', File ''ICO'')]))
       (Some (Dir [(''index.js'', File ''JS'')]))
     = (Some (Dir [(''index.js'', File ''JS''), (''favicon.ico'', File ''ICO'')]), None) \<and>
   [''index.js''] \<in> dom (file_at (fst (copyRecursive (Some (Dir [(''favicon.ico'', File ''ICO'')]))
       (Some (Dir [(''index.js'', File ''JS'')]))))) \<and>
   [''index.js''] \<notin> dom (file_at (Some (Dir [(''favicon.ico'', File ''ICO'')])))"
  by (simp add: file_at_def dom_def)

text \<open>
  C2, amended. For every source directory tree (no name listed twice in a directory) and
  every destination that has no file where the source has a directory and no directory
  where the source has a file (a destination that does not exist is one), the copy
  completes without error; afterwards the destination's set of relative file paths is the
  union of its set before and the source's set, every file path of the source holds the
  source's bytes, and the set equals the source's set when the destination held no file
  before.
\<close>

theorem copy_adds_source_files:
  assumes "wf_node src" and "isDirectory src" and "compatible src dest"
  shows "snd (copyRecursive (Some src) dest) = None \<and>
     dom (file_at (fst (copyRecursive (Some src) dest)))
       = dom (file_at dest) \<union> dom (file_at (Some src)) \<and>
     (\<forall>p b. file_at (Some src) p = Some b \<longrightarrow>
        file_at (fst (copyRecursive (Some src) dest)) p = Some b) \<and>
     (dom (file_at dest) = {} \<longrightarrow>
        dom (file_at (fst (copyRecursive (Some src) dest))) = dom (file_at (Some src)))"
proof -
  have ok: "snd (copyRecursive (Some src) dest) = None"
    using assms by (simp add: copy_completes_iff)
  have eq: "file_at (fst (copyRecursive (Some src) dest)) = file_at dest ++ file_at (Some src)"
    using assms(1) ok by (rule copy_success)
  show ?thesis
    using ok by (auto simp: eq)
qed

theorem copy_adds_source_files_witness:
  "wf_node (Dir [(''favicon.ico'', File ''ICO''), (''img'', Dir [(''logo.png'', File ''PNG'')])]) \<and>
   compatible (Dir [(''favicon.ico'', File ''ICO''), (''img'', Dir [(''logo.png'', File ''PNG'')])])
     (Some (Dir [(''index.js'', File ''JS'')])) \<and>
   copyRecursive
     (Some (Dir [(''favicon.ico'', File ''ICO''), (''img'', Dir [(''logo.png'', File ''PNG'')])]))
     (Some (Dir [(''index.js'', File ''JS'')]))
   = (Some (Dir [(''index.js'', File ''JS''), (''favicon.ico'', File ''ICO''),
                 (''img'', Dir [(''logo.png'', File ''PNG'')])]), None) \<and>
   file_at (fst (copyRecursive
     (Some (Dir [(''favicon.ico'', File ''ICO''), (''img'', Dir [(''logo.png'', File ''PNG'')])]))
     (Some (Dir [(''index.js'', File ''JS'')])))) [''img'', ''logo.png''] = Some ''PNG''"
  using copy_adds_source_files
    [of "Dir [(''favicon.ico'', File ''ICO''), (''img'', Dir [(''logo.png'', File ''PNG'')])]"
        "Some (Dir [(''index.js'', File ''JS'')])"]
  by (simp add: file_at_def)

subsection \<open>The hooks\<close>

lemma copyRecursive_keeps_destination:
  "fst (copyRecursive src dest) = None \<Longrightarrow> dest = None"
proof (cases src)
  case None
  then show "fst (copyRecursive src dest) = None \<Longrightarrow> dest = None" by simp
next
  case (Some s)
  then show "fst (copyRecursive src dest) = None \<Longrightarrow> dest = None"
    by (cases s) (auto split: sum.splits prod.splits)
qed

text \<open>A directory in the place of the README: the failed copy takes away the file that
  \<^verbatim>\<open>dist\<close> held under that name.\<close>

lemma copyReadmeOnEnd_directory:
  "copyReadmeOnEnd [(''README.md'', Dir []), (''dist'', Dir [(''README.md'', File ''old'')])]
     = ([(''README.md'', Dir []), (''dist'', Dir [])],
        [ConsoleError ''Error copying README.md:'' (SystemError EISDIR)])"
  by (simp add: copyReadmeOnEnd_def copyFile_def)

lemma copyPublicOnEnd_present:
  "map_of root ''public'' = Some src \<Longrightarrow>
   copyPublicOnEnd root =
     (setChild ''dist'' (fst (copyRecursive (Some src) (map_of root ''dist''))) root,
      [case snd (copyRecursive (Some src) (map_of root ''dist'')) of
         None \<Rightarrow> ConsoleLog ''Public directory contents copied to dist directory''
       | Some e \<Rightarrow> ConsoleError ''Error in copyPublicPlugin:'' (SystemError e)])"
  by (simp add: copyPublicOnEnd_def access_def split: prod.splits option.splits)

lemma copyPublicOnEnd_absent:
  "map_of root ''public'' = None \<Longrightarrow>
   copyPublicOnEnd root =
     (root, [ConsoleLog ''Public directory does not exist. Skipping copy operation.''])"
  by (simp add: copyPublicOnEnd_def access_def)

lemma copyPublicOnEnd_other:
  "k \<noteq> ''dist'' \<Longrightarrow> map_of (fst (copyPublicOnEnd root)) k = map_of root k"
  by (cases "map_of root ''public''")
     (simp_all add: copyPublicOnEnd_absent copyPublicOnEnd_present map_of_setChild)

lemma copyPublicOnEnd_dist:
  assumes "map_of root ''public'' = Some src"
  shows "file_at (Some (Dir (fst (copyPublicOnEnd root)))) (''dist'' # p)
           = file_at (fst (copyRecursive (Some src) (map_of root ''dist''))) p"
proof (cases "fst (copyRecursive (Some src) (map_of root ''dist''))")
  case None
  then have "map_of root ''dist'' = None"
    by (rule copyRecursive_keeps_destination)
  then show ?thesis
    using None assms by (simp add: copyPublicOnEnd_present file_at_Cons_Dir)
next
  case (Some n)
  then show ?thesis
    using assms by (simp add: copyPublicOnEnd_present file_at_Cons_Dir update_conv')
qed

text \<open>
  C4. When nothing exists at \<^verbatim>\<open>public\<close> in the project directory, the copy hook leaves
  the project directory exactly as it was (nothing is created or written, \<^verbatim>\<open>dist\<close>
  included) and prints one line to standard output; nothing goes to the error stream and
  nothing is thrown.
\<close>

theorem copyPublic_skips_when_absent:
  assumes "map_of root ''public'' = None"
  shows "copyPublicOnEnd root =
           (root, [ConsoleLog ''Public directory does not exist. Skipping copy operation.''])"
  using assms by (rule copyPublicOnEnd_absent)

theorem copyPublic_skips_when_absent_witness:
  "map_of [(''package.json'', File ''{}''), (''src'', Dir [(''index.ts'', File [])])] ''public'' = None \<and>
   copyPublicOnEnd [(''package.json'', File ''{}''), (''src'', Dir [(''index.ts'', File [])])] =
     ([(''package.json'', File ''{}''), (''src'', Dir [(''index.ts'', File [])])],
      [ConsoleLog ''Public directory does not exist. Skipping copy operation.''])"
  using copyPublic_skips_when_absent
    [of "[(''package.json'', File ''{}''), (''src'', Dir [(''index.ts'', File [])])]"]
  by simp

text \<open>
  C10, as stated, fails: the loop has no \<^verbatim>\<open>catch\<close>, so the first error ends the copy and
  the entries after it are not copied. Here \<^verbatim>\<open>public\<close> lists a directory \<^verbatim>\<open>a\<close> and
  then a file \<^verbatim>\<open>index.js\<close>, and \<^verbatim>\<open>dist\<close> holds a file \<^verbatim>\<open>a\<close> and a file
  \<^verbatim>\<open>index.js\<close>: \<^verbatim>\<open>mkdir\<close> throws at \<^verbatim>\<open>a\<close>, and \<^verbatim>\<open>index.js\<close>, a file in
  both trees, keeps the bytes it had; the hook prints the error.
\<close>

theorem copy_overwrite_counterexample:
  "wf_node (Dir [(''a'', Dir []), (''index.js'', File ''PUBLIC'')]) \<and>
   isDirectory (Dir [(''a'', Dir []), (''index.js'', File ''PUBLIC'')]) \<and>
   file_at (Some (Dir [(''a'', Dir []), (''index.js'', File ''PUBLIC'')])) [''index.js'']
     = Some ''PUBLIC'' \<and>
   file_at (Some (Dir [(''a'', File ''X''), (''index.js'', File ''BUNDLE'')])) [''index.js'']
     = Some ''BUNDLE'' \<and>
   copyRecursive (Some (Dir [(''a'', Dir []), (''index.js'', File ''PUBLIC'')]))
       (Some (Dir [(''a'', File ''X''), (''index.js'', File ''BUNDLE'')]))
     = (Some (Dir [(''a'', File ''X''), (''index.js'', File ''BUNDLE'')]), Some EEXIST) \<and>
   file_at (fst (copyRecursive (Some (Dir [(''a'', Dir []), (''index.js'', File ''PUBLIC'')]))
       (Some (Dir [(''a'', File ''X''), (''index.js'', File ''BUNDLE'')])))) [''index.js'']
     = Some ''BUNDLE'' \<and>
   copyPublicOnEnd [(''public'', Dir [(''a'', Dir []), (''index.js'', File ''PUBLIC'')]),
                    (''dist'', Dir [(''a'', File ''X''), (''index.js'', File ''BUNDLE'')])]
     = ([(''public'', Dir [(''a'', Dir []), (''index.js'', File ''PUBLIC'')]),
         (''dist'', Dir [(''a'', File ''X''), (''index.js'', File ''BUNDLE'')])],
        [ConsoleError ''Error in copyPublicPlugin:'' (SystemError EEXIST)])"
  by (simp add: file_at_def copyPublicOnEnd_def access_def)

text \<open>
  C10, amended. The copy of one file onto an existing file does not fail: it replaces the
  bytes. The recursive copy completes without error exactly when the destination has no
  file where the source has a directory and no directory where the source has a file; and
  whenever it completes, every relative path at which both the source tree and the
  destination held a file holds the source's bytes afterwards. For the hook, in that case:
  the file below \<^verbatim>\<open>dist\<close> that collides with one below \<^verbatim>\<open>public\<close> holds the bytes
  from \<^verbatim>\<open>public\<close> afterwards, and the only output is the line that reports success.
\<close>

theorem copy_overwrites_existing:
  assumes "wf_node src" and "isDirectory src"
    and "file_at (Some src) p = Some b" and "file_at dest p = Some b0"
  shows "(map_of d name = Some (File b0) \<longrightarrow>
            copyFileInto (File b) d name = (AList.update name (File b) d, None)) \<and>
         (snd (copyRecursive (Some src) dest) = None) = compatible src dest \<and>
         (snd (copyRecursive (Some src) dest) = None \<longrightarrow>
            file_at (fst (copyRecursive (Some src) dest)) p = Some b) \<and>
         (map_of root ''public'' = Some src \<and> map_of root ''dist'' = dest \<and>
          compatible src dest \<longrightarrow>
            snd (copyPublicOnEnd root)
              = [ConsoleLog ''Public directory contents copied to dist directory''] \<and>
            file_at (Some (Dir (fst (copyPublicOnEnd root)))) (''dist'' # p) = Some b)"
proof (intro conjI impI)
  assume "map_of d name = Some (File b0)"
  then show "copyFileInto (File b) d name = (AList.update name (File b) d, None)"
    by simp
next
  show "(snd (copyRecursive (Some src) dest) = None) = compatible src dest"
    using assms(1,2) by (rule copy_completes_iff)
next
  assume ok: "snd (copyRecursive (Some src) dest) = None"
  show "file_at (fst (copyRecursive (Some src) dest)) p = Some b"
    using assms(3) by (simp add: copy_success [OF assms(1) ok])
next
  assume hook: "map_of root ''public'' = Some src \<and> map_of root ''dist'' = dest \<and>
    compatible src dest"
  then have ok: "snd (copyRecursive (Some src) (map_of root ''dist'')) = None"
    using assms(1,2) by (simp add: copy_completes_iff)
  then show "snd (copyPublicOnEnd root)
      = [ConsoleLog ''Public directory contents copied to dist directory'']"
    using hook by (simp add: copyPublicOnEnd_present)
next
  assume hook: "map_of root ''public'' = Some src \<and> map_of root ''dist'' = dest \<and>
    compatible src dest"
  then have ok: "snd (copyRecursive (Some src) (map_of root ''dist'')) = None"
    using assms(1,2) by (simp add: copy_completes_iff)
  have "file_at (fst (copyRecursive (Some src) (map_of root ''dist''))) p = Some b"
    using assms(3) by (simp add: copy_success [OF assms(1) ok])
  then show "file_at (Some (Dir (fst (copyPublicOnEnd root)))) (''dist'' # p) = Some b"
    using hook copyPublicOnEnd_dist [of root src p] by simp
qed

theorem copy_overwrites_existing_witness:
  "wf_node (Dir [(''index.js'', File ''PUBLIC'')]) \<and>
   file_at (Some (Dir [(''index.js'', File ''PUBLIC'')])) [''index.js''] = Some ''PUBLIC'' \<and>
   file_at (Some (Dir [(''index.js'', File ''BUNDLE'')])) [''index.js''] = Some ''BUNDLE'' \<and>
   compatible (Dir [(''index.js'', File ''PUBLIC'')]) (Some (Dir [(''index.js'', File ''BUNDLE'')])) \<and>
   copyRecursive (Some (Dir [(''index.js'', File ''PUBLIC'')]))
       (Some (Dir [(''index.js'', File ''BUNDLE'')]))
     = (Some (Dir [(''index.js'', File ''PUBLIC'')]), None) \<and>
   copyPublicOnEnd [(''public'', Dir [(''index.js'', File ''PUBLIC'')]),
                    (''dist'', Dir [(''index.js'', File ''BUNDLE'')])]
   = ([(''public'', Dir [(''index.js'', File ''PUBLIC'')]),
       (''dist'', Dir [(''index.js'', File ''PUBLIC'')])],
      [ConsoleLog ''Public directory contents copied to dist directory''])"
  using copy_overwrites_existing
    [of "Dir [(''index.js'', File ''PUBLIC'')]" "[''index.js'']" "''PUBLIC''"
        "Some (Dir [(''index.js'', File ''BUNDLE'')])" "''BUNDLE''"
        "[(''index.js'', File ''BUNDLE'')]" "''index.js''"
        "[(''public'', Dir [(''index.js'', File ''PUBLIC'')]),
          (''dist'', Dir [(''index.js'', File ''BUNDLE'')])]"]
  by (simp add: file_at_def copyPublicOnEnd_def access_def)

lemma writeFile_Inr:
  "writeFile parent name data = Inr d' \<Longrightarrow>
   \<exists>ents. parent = Some (Dir ents) \<and> d' = AList.update name (File data) ents"
  by (cases "(parent, name, data)" rule: writeFile.cases)
     (auto split: option.splits node.splits)

lemma writeFile_again:
  "writeFile parent name data = Inr d' \<Longrightarrow> writeFile (Some (Dir d')) name data = Inr d'"
  by (auto dest!: writeFile_Inr simp: update_conv')

lemma generatePackageJson_Inr:
  assumes "generatePackageJson parse stringify root = Inr root'"
  shows "\<exists>c v v' dist'. readFile (map_of root ''package.json'') = Inr c \<and> parse c = Some v \<and>
           modifyPackageJson v = Inr v' \<and>
           writeFile (map_of root ''dist'') ''package.json'' (stringify v' 2) = Inr dist' \<and>
           root' = AList.update ''dist'' (Dir dist') root"
  using assms
  by (auto simp: generatePackageJson_def split: sum.splits option.splits)

lemma generatePackageJson_again:
  assumes "generatePackageJson parse stringify root = Inr root'"
  shows "generatePackageJson parse stringify root' = Inr root'"
proof -
  obtain c v v' dist' where
    r: "readFile (map_of root ''package.json'') = Inr c" and p: "parse c = Some v" and
    m: "modifyPackageJson v = Inr v'" and
    w: "writeFile (map_of root ''dist'') ''package.json'' (stringify v' 2) = Inr dist'" and
    root': "root' = AList.update ''dist'' (Dir dist') root"
    using generatePackageJson_Inr [OF assms] by blast
  have "map_of root' ''package.json'' = map_of root ''package.json''"
    by (simp add: root' update_conv')
  moreover have "map_of root' ''dist'' = Some (Dir dist')"
    by (simp add: root' update_conv')
  ultimately show ?thesis
    using r p m writeFile_again [OF w]
    by (simp add: generatePackageJson_def root')
qed

lemma generatePackageJsonOnEnd_other:
  "k \<noteq> ''dist'' \<Longrightarrow> map_of (fst (generatePackageJsonOnEnd parse stringify root)) k = map_of root k"
  by (cases "generatePackageJson parse stringify root")
     (auto simp: generatePackageJsonOnEnd_def update_conv' dest!: generatePackageJson_Inr)

lemma trimManifest_again: "trimManifest (trimManifest M) = trimManifest M"
  by (simp add: trimManifest_def delete_update delete_idem delete_twist)


lemma generatePackageJsonOnEnd_again:
  "generatePackageJsonOnEnd parse stringify (fst (generatePackageJsonOnEnd parse stringify root))
     = generatePackageJsonOnEnd parse stringify root"
proof (cases "generatePackageJson parse stringify root")
  case (Inl e)
  then show ?thesis by (simp add: generatePackageJsonOnEnd_def)
next
  case (Inr root')
  then show ?thesis
    using generatePackageJson_again [OF Inr] by (simp add: generatePackageJsonOnEnd_def)
qed

lemma generatePackageJsonOnEnd_written:
  assumes "readFile (map_of root ''package.json'') = Inr c" and "parse c = Some (JObject M)"
    and "map_of root ''dist'' = Some (Dir d)"
    and "\<forall>n. map_of d ''package.json'' = Some n \<longrightarrow> \<not> isDirectory n"
  shows "generatePackageJsonOnEnd parse stringify root =
           (AList.update ''dist''
              (Dir (AList.update ''package.json''
                      (File (stringify (JObject (trimManifest M)) 2)) d)) root,
            [ConsoleLog ''package.json generated in dist directory''])"
proof -
  have "writeFile (Some (Dir d)) ''package.json'' out
          = Inr (AList.update ''package.json'' (File out) d)" for out
    using assms(4) by (auto split: option.splits node.splits)
  then show ?thesis
    using assms(1-3) by (simp add: generatePackageJsonOnEnd_def generatePackageJson_def)
qed

text \<open>
  C7. Running the manifest hook again on the project directory that a first run has left
  gives the same project directory and the same output: the source manifest is not
  touched by the hook, so the second run writes the bytes the first one wrote. On a parsed
  object \<open>M\<close>, with \<^verbatim>\<open>dist\<close> a directory that has no directory named
  \<^verbatim>\<open>package.json\<close>, these bytes are \<open>stringify\<close> with indentation 2 of the trimmed
  manifest, after one run and after two; and trimming a trimmed manifest changes nothing.
\<close>

theorem manifest_hook_idempotent:
  "generatePackageJsonOnEnd parse stringify (fst (generatePackageJsonOnEnd parse stringify root))
     = generatePackageJsonOnEnd parse stringify root \<and>
   trimManifest (trimManifest M) = trimManifest M \<and>
   (readFile (map_of root ''package.json'') = Inr c \<and> parse c = Some (JObject M) \<and>
    map_of root ''dist'' = Some (Dir d) \<and>
    (\<forall>n. map_of d ''package.json'' = Some n \<longrightarrow> \<not> isDirectory n) \<longrightarrow>
      snd (generatePackageJsonOnEnd parse stringify root)
        = [ConsoleLog ''package.json generated in dist directory''] \<and>
      file_at (Some (Dir (fst (generatePackageJsonOnEnd parse stringify root))))
          [''dist'', ''package.json'']
        = Some (stringify (JObject (trimManifest M)) 2) \<and>
      file_at (Some (Dir (fst (generatePackageJsonOnEnd parse stringify
                 (fst (generatePackageJsonOnEnd parse stringify root))))))
          [''dist'', ''package.json'']
        = Some (stringify (JObject (trimManifest M)) 2))"
proof -
  have "snd (generatePackageJsonOnEnd parse stringify root)
          = [ConsoleLog ''package.json generated in dist directory''] \<and>
        file_at (Some (Dir (fst (generatePackageJsonOnEnd parse stringify root))))
            [''dist'', ''package.json'']
          = Some (stringify (JObject (trimManifest M)) 2)"
    if "readFile (map_of root ''package.json'') = Inr c" "parse c = Some (JObject M)"
       "map_of root ''dist'' = Some (Dir d)"
       "\<forall>n. map_of d ''package.json'' = Some n \<longrightarrow> \<not> isDirectory n"
    using generatePackageJsonOnEnd_written [of root c parse M d stringify] that
    by (simp add: file_at_def update_conv')
  then show ?thesis
    by (simp add: generatePackageJsonOnEnd_again trimManifest_again)
qed

theorem manifest_hook_idempotent_witness:
  \<open>let parse = (\<lambda>text. if text = ''{"name":"lib","scripts":{}}''
                        then Some (JObject [(''name'', JString ''lib''), (''scripts'', JObject [])])
                        else (None :: nat json option));
       stringify = (\<lambda>v n. if v = JObject [(''name'', JString ''lib''), (''browser'', JString ''index.js'')] \<and> n = 2
                        then ''{\<newline>  "name": "lib",\<newline>  "browser": "index.js"\<newline>}''
                        else ''null'');
       root = [(''package.json'', File ''{"name":"lib","scripts":{}}''),
               (''dist'', Dir [(''index.js'', File ''JS'')])];
       root' = [(''package.json'', File ''{"name":"lib","scripts":{}}''),
                (''dist'', Dir [(''index.js'', File ''JS''),
                               (''package.json'',
                                File ''{\<newline>  "name": "lib",\<newline>  "browser": "index.js"\<newline>}'')])]
   in generatePackageJsonOnEnd parse stringify root
        = (root', [ConsoleLog ''package.json generated in dist directory'']) \<and>
      generatePackageJsonOnEnd parse stringify root'
        = (root', [ConsoleLog ''package.json generated in dist directory''])\<close>
  using manifest_hook_idempotent
    [of \<open>\<lambda>text. if text = ''{"name":"lib","scripts":{}}''
                then Some (JObject [(''name'', JString ''lib''), (''scripts'', JObject [])])
                else (None :: nat json option)\<close>
        \<open>\<lambda>v n. if v = JObject [(''name'', JString ''lib''), (''browser'', JString ''index.js'')] \<and> n = 2
                then ''{\<newline>  "name": "lib",\<newline>  "browser": "index.js"\<newline>}''
                else ''null''\<close>
        \<open>[(''package.json'', File ''{"name":"lib","scripts":{}}''),
          (''dist'', Dir [(''index.js'', File ''JS'')])]\<close>
        \<open>[(''name'', JString ''lib''), (''scripts'', JObject [])]\<close>
        \<open>''{"name":"lib","scripts":{}}''\<close>
        \<open>[(''index.js'', File ''JS'')]\<close>]
  by (simp add: generatePackageJsonOnEnd_def generatePackageJson_def trimManifest_def Let_def)


lemma generatePackageJsonOnEnd_fails:
  assumes "readFile (map_of root ''package.json'') = Inl e \<or>
           (readFile (map_of root ''package.json'') = Inr c \<and> parse c = None)"
  shows "generatePackageJsonOnEnd parse stringify root =
           (root, [ConsoleError ''Error generating package.json:''
                     (case readFile (map_of root ''package.json'') of
                        Inl e \<Rightarrow> SystemError e
                      | Inr c \<Rightarrow> SyntaxError)])"
  using assms by (auto simp: generatePackageJsonOnEnd_def generatePackageJson_def)

lemma runOnEnd_production:
  "runOnEnd parse stringify (plugins True) root =
     (case copyPublicOnEnd root of
        (r1, o1) \<Rightarrow>
          (case generatePackageJsonOnEnd parse stringify r1 of
             (r2, o2) \<Rightarrow>
               (case copyReadmeOnEnd r2 of
                  (r3, o3) \<Rightarrow> (r3, o1 @ o2 @ o3))))"
  by (simp add: plugins_def split: prod.splits)


text \<open>
  C5. When the manifest at the project root cannot be read (it is missing, or a directory)
  or its text does not parse, the manifest hook returns with the project directory
  unchanged and one line on the error stream carrying the error; it throws nothing. In a
  production build the other hooks run as they would without it: the project directory
  after all callbacks is the one that the copy of \<^verbatim>\<open>public\<close> followed by the copy of
  the README leaves, and the output is theirs with the one error line in between.
\<close>

theorem manifest_error_is_contained:
  assumes "readFile (map_of root ''package.json'') = Inl e \<or>
           (readFile (map_of root ''package.json'') = Inr c \<and> parse c = None)"
  shows "generatePackageJsonOnEnd parse stringify root =
           (root, [ConsoleError ''Error generating package.json:''
                     (case readFile (map_of root ''package.json'') of
                        Inl e \<Rightarrow> SystemError e
                      | Inr c \<Rightarrow> SyntaxError)]) \<and>
         runOnEnd parse stringify (plugins True) root =
           (fst (copyReadmeOnEnd (fst (copyPublicOnEnd root))),
            snd (copyPublicOnEnd root) @
            [ConsoleError ''Error generating package.json:''
               (case readFile (map_of root ''package.json'') of
                  Inl e \<Rightarrow> SystemError e
                | Inr c \<Rightarrow> SyntaxError)] @
            snd (copyReadmeOnEnd (fst (copyPublicOnEnd root)))) \<and>
         fst (runOnEnd parse stringify (plugins True) root) =
           fst (runOnEnd parse stringify [SassPlugin, CopyPublicPlugin, CopyReadmePlugin] root)"
proof -
  let ?err = "ConsoleError ''Error generating package.json:''
                (case readFile (map_of root ''package.json'') of
                   Inl e \<Rightarrow> SystemError e
                 | Inr c \<Rightarrow> SyntaxError)"
  obtain r1 o1 where pub: "copyPublicOnEnd root = (r1, o1)"
    by (cases "copyPublicOnEnd root")
  obtain r3 o3 where readme: "copyReadmeOnEnd r1 = (r3, o3)"
    by (cases "copyReadmeOnEnd r1")
  have same: "map_of r1 ''package.json'' = map_of root ''package.json''"
    using copyPublicOnEnd_other [of "''package.json''" root] pub by simp
  have here: "generatePackageJsonOnEnd parse stringify root = (root, [?err])"
    using generatePackageJsonOnEnd_fails [of root e c parse stringify] assms by simp
  have "readFile (map_of r1 ''package.json'') = Inl e \<or>
        (readFile (map_of r1 ''package.json'') = Inr c \<and> parse c = None)"
    using assms by (simp only: same)
  then have "generatePackageJsonOnEnd parse stringify r1 =
           (r1, [ConsoleError ''Error generating package.json:''
                     (case readFile (map_of r1 ''package.json'') of
                        Inl e \<Rightarrow> SystemError e
                      | Inr c \<Rightarrow> SyntaxError)])"
    by (rule generatePackageJsonOnEnd_fails)
  then have mid: "generatePackageJsonOnEnd parse stringify r1 = (r1, [?err])"
    by (simp only: same)
  have full: "runOnEnd parse stringify (plugins True) root = (r3, o1 @ [?err] @ o3)"
    by (simp only: runOnEnd_production pub mid readme prod.case)
  have without: "fst (runOnEnd parse stringify [SassPlugin, CopyPublicPlugin, CopyReadmePlugin] root)
      = r3"
    by (simp add: pub readme)
  show ?thesis
    by (simp only: here full without pub readme fst_conv snd_conv simp_thms)
qed

theorem manifest_error_is_contained_witness:
  "readFile (map_of [(''README.md'', File ''# lib''), (''public'', Dir [(''favicon.ico'', File ''ICO'')]),
                     (''dist'', Dir [(''index.js'', File ''JS'')])] ''package.json'') = Inl ENOENT \<and>
   runOnEnd (\<lambda>text. None :: nat json option) (\<lambda>v n. ''null'') (plugins True)
     [(''README.md'', File ''# lib''), (''public'', Dir [(''favicon.ico'', File ''ICO'')]),
      (''dist'', Dir [(''index.js'', File ''JS'')])]
   = ([(''README.md'', File ''# lib''), (''public'', Dir [(''favicon.ico'', File ''ICO'')]),
       (''dist'', Dir [(''index.js'', File ''JS''), (''favicon.ico'', File ''ICO''),
                      (''README.md'', File ''# lib'')])],
      [ConsoleLog ''Public directory contents copied to dist directory'',
       ConsoleError ''Error generating package.json:'' (SystemError ENOENT),
       ConsoleLog ''README.md copied to dist directory''])"
  using manifest_error_is_contained
    [of "[(''README.md'', File ''# lib''), (''public'', Dir [(''favicon.ico'', File ''ICO'')]),
          (''dist'', Dir [(''index.js'', File ''JS'')])]"
        ENOENT "[]" "\<lambda>text. None :: nat json option" "\<lambda>v n. ''null''"]
  by (simp add: copyPublicOnEnd_def copyReadmeOnEnd_def copyFile_def access_def)



subsection \<open>The report\<close>

subsubsection \<open>Strings and paths\<close>

lemma endsWith_suffix: "endsWith s suf = suffix suf s"
proof
  assume "endsWith s suf"
  then have "s = take (length s - length suf) s @ suf"
    by (metis append_take_drop_id endsWith_def)
  then show "suffix suf s"
    by (metis suffixI)
next
  assume "suffix suf s"
  then obtain pre where "s = pre @ suf" by (auto simp: suffix_def)
  then show "endsWith s suf" by (simp add: endsWith_def)
qed

lemma endsWith_after:
  assumes "c \<notin> set suf"
  shows "endsWith (xs @ c # ys) suf = endsWith ys suf"
proof -
  have "suffix suf (xs @ c # ys) = suffix suf ys"
    using assms by (induction xs) (auto simp: suffix_Cons)
  then show ?thesis by (simp add: endsWith_suffix)
qed

lemma split_whole: "sep \<notin> set s \<Longrightarrow> split sep s = [s]"
  by (induction s) auto

lemma split_not_empty: "split sep s \<noteq> []"
  by (induction s) (auto split: list.splits)

lemma split_first: "sep \<notin> set s \<Longrightarrow> split sep (s @ sep # rest) = s # split sep rest"
  by (induction s) (auto split: list.splits)

lemma joinWith_Cons:
  "ys \<noteq> [] \<Longrightarrow> joinWith s (x # ys) = x @ s @ joinWith s ys"
  by (cases ys) simp_all

lemma split_joinWith:
  "segs \<noteq> [] \<Longrightarrow> \<forall>s \<in> set segs. sep \<notin> set s \<Longrightarrow> split sep (joinWith [sep] segs) = segs"
proof (induction segs)
  case Nil
  then show ?case by simp
next
  case (Cons x segs)
  show ?case
  proof (cases segs)
    case Nil
    then show ?thesis using Cons.prems by (simp add: split_whole)
  next
    case (Cons y ys)
    then show ?thesis
      using Cons.IH Cons.prems by (simp add: split_first)
  qed
qed

lemma endsWith_joinWith_last:
  "c \<notin> set suf \<Longrightarrow> p \<noteq> [] \<Longrightarrow> endsWith (joinWith [c] (r # p)) suf = endsWith (last p) suf"
proof (induction p arbitrary: r)
  case Nil
  then show ?case by simp
next
  case (Cons x p)
  show ?case
  proof (cases p)
    case Nil
    then show ?thesis
      using Cons.prems(1) by (simp add: endsWith_after)
  next
    case (Cons y ys)
    then have "joinWith [c] (r # x # p) = r @ c # joinWith [c] (x # p)"
      by simp
    then show ?thesis
      using Cons.IH [of x] Cons.prems(1) Cons by (simp add: endsWith_after del: joinWith.simps)
  qed
qed

lemma joinWith_join:
  "joinWith [sep] (join sep dirPath name # p) = joinWith [sep] (dirPath # name # p)"
  by (cases p) (simp_all add: join_def)

subsubsection \<open>The listing\<close>

lemma getFiles_listing:
  "\<forall>ents. n = Some (Dir ents) \<longrightarrow>
     getFiles sep dirPath n = Inr (map (pathOf sep dirPath) (leafFilesIn ents))"
  "\<exists>xs. mapDirents sep dirPath ents = Inr xs \<and>
        flat xs = map (pathOf sep dirPath) (leafFilesIn ents)"
proof (induction sep dirPath n and sep dirPath ents rule: getFiles_mapDirents.induct)
  case (1 sep dirPath)
  show ?case by simp
next
  case (2 sep dirPath b)
  show ?case by simp
next
  case (3 sep dirPath ents)
  then show ?case by auto
next
  case (4 sep dirPath)
  show ?case by simp
next
  case (5 sep dirPath name child rest)
  show ?case
  proof (cases child)
    case (File b)
    then obtain xs where rest: "mapDirents sep dirPath rest = Inr xs"
        and flat: "flat xs = map (pathOf sep dirPath) (leafFilesIn rest)"
      using "5.IH"(2) [of "join sep dirPath name" "Path (join sep dirPath name)"] by auto
    then show ?thesis
      using File by (simp add: pathOf_def join_def)
  next
    case (Dir sub)
    then have head: "getFiles sep (join sep dirPath name) (Some child)
        = Inr (map (pathOf sep (join sep dirPath name)) (leafFilesIn sub))"
      using "5.IH"(1) [of "join sep dirPath name"] by simp
    then obtain xs where rest: "mapDirents sep dirPath rest = Inr xs"
        and flat: "flat xs = map (pathOf sep dirPath) (leafFilesIn rest)"
      using "5.IH"(2) [of "join sep dirPath name"
          "Arr (map (pathOf sep (join sep dirPath name)) (leafFilesIn sub))"] Dir
      by auto
    then show ?thesis
      using Dir head by (simp add: pathOf_def joinWith_join comp_def del: joinWith.simps)
  qed
qed


lemma leafFiles_not_empty:
  "isDirectory n \<longrightarrow> [] \<notin> set (leafFiles n)"
  "[] \<notin> set (leafFilesIn ents)"
  by (induction n and ents rule: leafFiles_leafFilesIn.induct) auto

lemma leafFiles_valid:
  "validNames sep n \<longrightarrow> (\<forall>p \<in> set (leafFiles n). \<forall>s \<in> set p. sep \<notin> set s)"
  "validEntries sep ents \<longrightarrow> (\<forall>p \<in> set (leafFilesIn ents). \<forall>s \<in> set p. sep \<notin> set s)"
  by (induction n and ents rule: leafFiles_leafFilesIn.induct) auto

lemma leafFiles_files:
  "wf_node n \<longrightarrow> (\<forall>p. (p \<in> set (leafFiles n)) = (file_at (Some n) p \<noteq> None))"
  "wf_dir ents \<longrightarrow> (\<forall>p. (p \<in> set (leafFilesIn ents)) = (file_at (Some (Dir ents)) p \<noteq> None))"
proof (induction n and ents rule: leafFiles_leafFilesIn.induct)
  case (1 b)
  show ?case by (auto simp: file_at_File split: list.splits)
next
  case (2 ents)
  then show ?case by simp
next
  case 3
  show ?case by (simp add: file_at_empty)
next
  case (4 name child rest)
  show ?case
  proof (intro impI allI)
    fix p
    assume wf: "wf_dir ((name, child) # rest)"
    then have fresh: "map_of rest name = None"
      by (simp add: map_of_eq_None_iff)
    show "(p \<in> set (leafFilesIn ((name, child) # rest)))
            = (file_at (Some (Dir ((name, child) # rest))) p \<noteq> None)"
    proof (cases p)
      case Nil
      then show ?thesis
        using leafFiles_not_empty(2) [of "(name, child) # rest"] by (simp add: file_at_Nil)
    next
      case (Cons x xs)
      show ?thesis
      proof (cases "x = name")
        case True
        have "name # xs \<notin> set (leafFilesIn rest)"
          using 4 wf fresh by (simp add: file_at_Cons_Dir file_at_None)
        then show ?thesis
          using 4 wf Cons True by (auto simp: file_at_Cons_Dir)
      next
        case False
        then show ?thesis
          using 4 wf Cons by (auto simp: file_at_Cons_Dir)
      qed
    qed
  qed
qed

lemma leafFiles_distinct:
  "wf_node n \<longrightarrow> distinct (leafFiles n)"
  "wf_dir ents \<longrightarrow> distinct (leafFilesIn ents)"
proof (induction n and ents rule: leafFiles_leafFilesIn.induct)
  case (4 name child rest)
  show ?case
  proof
    assume wf: "wf_dir ((name, child) # rest)"
    then have fresh: "map_of rest name = None"
      by (simp add: map_of_eq_None_iff)
    have "name # xs \<notin> set (leafFilesIn rest)" for xs
      using leafFiles_files(2) [of rest] wf fresh by (simp add: file_at_Cons_Dir file_at_None)
    then have "set (map ((#) name) (leafFiles child)) \<inter> set (leafFilesIn rest) = {}"
      by auto
    then show "distinct (leafFilesIn ((name, child) # rest))"
      using 4 wf by (simp add: distinct_map)
  qed
qed simp_all


subsubsection \<open>The rows\<close>

lemma fileInfo_pathOf:
  assumes "sep \<notin> set root" and "\<forall>s \<in> set p. sep \<notin> set s" and "p \<noteq> []"
  shows "fileInfo sep (joinWith [sep] (root # p)) =
           (if endsWith (joinWith [sep] (root # p)) ''.map'' then None else Some (servedRow p))"
proof -
  have "split sep (joinWith [sep] (root # p)) = root # p"
    using assms(1,2) by (intro split_joinWith) auto
  moreover have "endsWith (joinWith ''/'' (SERVE_ORIGIN # p)) ''.css'' = endsWith (last p) ''.css''"
    using assms(3) by (intro endsWith_joinWith_last) auto
  ultimately show ?thesis
    by (simp add: fileInfo_def servedRow_def urlOf_def Let_def del: joinWith.simps)
qed

lemma mapFiles_paths:
  "mapFiles sep (map Path files) = Inr (map (fileInfo sep) files)"
  by (induction files) simp_all

lemma filterBoolean_map:
  "filterBoolean (map (\<lambda>x. if P x then None else Some (f x)) xs) = map f (filter (\<lambda>x. \<not> P x) xs)"
  by (induction xs) simp_all

lemma filesInfo_listing:
  assumes "sep \<notin> set root" and "validEntries sep ents"
  shows "filesInfo sep (map (pathOf sep root) (leafFilesIn ents)) =
           Inr (map servedRow
                  (filter (\<lambda>p. \<not> endsWith (joinWith [sep] (root # p)) ''.map'') (leafFilesIn ents)))"
proof -
  have each: "fileInfo sep (joinWith [sep] (root # p)) =
      (if endsWith (joinWith [sep] (root # p)) ''.map'' then None else Some (servedRow p))"
    if "p \<in> set (leafFilesIn ents)" for p
  proof -
    have "p \<noteq> []" using that leafFiles_not_empty(2) [of ents] by auto
    moreover have "\<forall>s \<in> set p. sep \<notin> set s"
      using that assms(2) leafFiles_valid(2) [of sep ents] by blast
    ultimately show ?thesis
      using assms(1) by (intro fileInfo_pathOf)
  qed
  have paths: "map (pathOf sep root) (leafFilesIn ents)
          = map Path (map (\<lambda>p. joinWith [sep] (root # p)) (leafFilesIn ents))"
    by (simp add: pathOf_def comp_def del: joinWith.simps)
  have infos: "map (fileInfo sep) (map (\<lambda>p. joinWith [sep] (root # p)) (leafFilesIn ents))
          = map (\<lambda>p. if endsWith (joinWith [sep] (root # p)) ''.map'' then None
                      else Some (servedRow p)) (leafFilesIn ents)"
    using each by (simp add: comp_def del: joinWith.simps)
  show ?thesis
    by (simp only: filesInfo_def paths mapFiles_paths infos filterBoolean_map sum.case)
qed


lemma SERVE_ORIGIN_value: "SERVE_ORIGIN = ''http://localhost:3000''"
  by code_simp

lemma logServedFiles_listing:
  assumes "map_of cwd BUILD_DIRECTORY = Some (Dir ents)"
    and "validEntries sep ents" and "sep \<notin> set BUILD_DIRECTORY"
  shows "logServedFiles sep cwd =
           Inr (map servedRow (filter (\<lambda>p. \<not> isSourceMap sep p) (leafFilesIn ents)))"
  using getFiles_listing(1) [of "Some (Dir ents)" sep BUILD_DIRECTORY]
    filesInfo_listing [OF assms(3,2)] assms(1)
  by (simp add: logServedFiles_def isSourceMap_def del: joinWith.simps)

text \<open>
  C6. For every output directory (no name in it contains the separator of the host, and
  the separator does not occur in \<^verbatim>\<open>dist\<close>), \<^verbatim>\<open>getFiles\<close> returns an array of paths
  only, with no array left inside at any depth: the paths of \<open>leafFilesIn\<close>, that is,
  the entries in the order of each listing, a directory replaced in place by the files
  below it. These are exactly the files of the tree, each once (for a tree that lists no
  name twice in a directory); a directory is never among them. The table has one row for
  each of them that is not a source map, in that order, and the location of a row is the
  origin followed by the names of the relative path, joined with \<^verbatim>\<open>/\<close> whatever the
  separator of the host is.
\<close>

theorem served_files_listing:
  assumes "map_of cwd BUILD_DIRECTORY = Some (Dir ents)"
    and "validEntries sep ents" and "sep \<notin> set BUILD_DIRECTORY"
  shows "getFiles sep BUILD_DIRECTORY (map_of cwd BUILD_DIRECTORY)
           = Inr (map (pathOf sep BUILD_DIRECTORY) (leafFilesIn ents)) \<and>
         (wf_dir ents \<longrightarrow>
            set (leafFilesIn ents) = dom (file_at (Some (Dir ents))) \<and>
            distinct (leafFilesIn ents)) \<and>
         logServedFiles sep cwd
           = Inr (map servedRow (filter (\<lambda>p. \<not> isSourceMap sep p) (leafFilesIn ents))) \<and>
         (\<forall>p. fileLocation (servedRow p) = joinWith ''/'' (SERVE_ORIGIN # p))"
proof -
  have "getFiles sep BUILD_DIRECTORY (map_of cwd BUILD_DIRECTORY)
           = Inr (map (pathOf sep BUILD_DIRECTORY) (leafFilesIn ents))"
    using getFiles_listing(1) [of "Some (Dir ents)" sep BUILD_DIRECTORY] assms(1) by simp
  moreover have "set (leafFilesIn ents) = dom (file_at (Some (Dir ents)))" if "wf_dir ents"
    using leafFiles_files(2) [of ents] that by (auto simp: dom_def)
  moreover have "distinct (leafFilesIn ents)" if "wf_dir ents"
    using leafFiles_distinct(2) [of ents] that by simp
  moreover note logServedFiles_listing [OF assms]
  moreover have "fileLocation (servedRow p) = joinWith ''/'' (SERVE_ORIGIN # p)" for p
    by (simp add: servedRow_def urlOf_def)
  ultimately show ?thesis by blast
qed

theorem served_files_listing_witness:
  \<open>validEntries (CHR 0x5C)
      [(''index.js'', File ''J''), (''index.js.map'', File ''M''),
       (''assets'', Dir [(''css'', Dir [(''main.css'', File ''C'')]), (''empty'', Dir []),
                        (''logo.png'', File ''P'')]),
       (''z.js'', File ''Z'')] \<and>
    getFiles (CHR 0x5C) BUILD_DIRECTORY
      (Some (Dir [(''index.js'', File ''J''), (''index.js.map'', File ''M''),
       (''assets'', Dir [(''css'', Dir [(''main.css'', File ''C'')]), (''empty'', Dir []),
                        (''logo.png'', File ''P'')]),
       (''z.js'', File ''Z'')]))
    = Inr [Path (''dist'' @ [CHR 0x5C] @ ''index.js''),
           Path (''dist'' @ [CHR 0x5C] @ ''index.js.map''),
           Path (''dist'' @ [CHR 0x5C] @ ''assets'' @ [CHR 0x5C] @ ''css'' @ [CHR 0x5C] @ ''main.css''),
           Path (''dist'' @ [CHR 0x5C] @ ''assets'' @ [CHR 0x5C] @ ''logo.png''),
           Path (''dist'' @ [CHR 0x5C] @ ''z.js'')] \<and>
    logServedFiles (CHR 0x5C)
      [(''dist'', Dir [(''index.js'', File ''J''), (''index.js.map'', File ''M''),
       (''assets'', Dir [(''css'', Dir [(''main.css'', File ''C'')]), (''empty'', Dir []),
                        (''logo.png'', File ''P'')]),
       (''z.js'', File ''Z'')])]
    = Inr [\<lparr>fileLocation = ''http://localhost:3000/index.js'',
            importSuggestion = ''<script defer src="http://localhost:3000/index.js"></script>''\<rparr>,
           \<lparr>fileLocation = ''http://localhost:3000/assets/css/main.css'',
            importSuggestion = ''<link href="http://localhost:3000/assets/css/main.css" rel="stylesheet" type="text/css"/>''\<rparr>,
           \<lparr>fileLocation = ''http://localhost:3000/assets/logo.png'',
            importSuggestion = ''<script defer src="http://localhost:3000/assets/logo.png"></script>''\<rparr>,
           \<lparr>fileLocation = ''http://localhost:3000/z.js'',
            importSuggestion = ''<script defer src="http://localhost:3000/z.js"></script>''\<rparr>]\<close>
  using served_files_listing
    [of "[(''dist'', Dir [(''index.js'', File ''J''), (''index.js.map'', File ''M''),
       (''assets'', Dir [(''css'', Dir [(''main.css'', File ''C'')]), (''empty'', Dir []),
                        (''logo.png'', File ''P'')]),
       (''z.js'', File ''Z'')])]"
       "[(''index.js'', File ''J''), (''index.js.map'', File ''M''),
       (''assets'', Dir [(''css'', Dir [(''main.css'', File ''C'')]), (''empty'', Dir []),
                        (''logo.png'', File ''P'')]),
       (''z.js'', File ''Z'')]" "CHR 0x5C"]
  by (simp add: BUILD_DIRECTORY_def pathOf_def servedRow_def urlOf_def isSourceMap_def
        endsWith_def linkTag_def scriptTag_def SERVE_ORIGIN_value)


lemma fileInfo_None: "(fileInfo sep file = None) = endsWith file ''.map''"
  by (simp add: fileInfo_def Let_def)

lemma filesInfo_paths:
  "filesInfo sep (map Path files) = Inr (filterBoolean (map (fileInfo sep) files))"
  by (simp add: filesInfo_def mapFiles_paths)

text \<open>
  C3. With \<^verbatim>\<open>app.js\<close>, \<^verbatim>\<open>app.js.map\<close> and \<^verbatim>\<open>styles.css\<close> in the output directory
  (listed in this order, on either separator), the table has exactly two rows: the URL
  \<^verbatim>\<open>http://localhost:3000/app.js\<close> with a deferred script tag and the URL
  \<^verbatim>\<open>http://localhost:3000/styles.css\<close> with a stylesheet link; the file list
  \<^verbatim>\<open>dist/app.js\<close>, \<^verbatim>\<open>dist/app.js.map\<close>, \<^verbatim>\<open>dist/styles.css\<close> gives the same rows.
  In general, a path gives no row exactly when it ends in \<^verbatim>\<open>.map\<close>; every other path
  below the root gives a row with its URL, with a stylesheet link when the path ends in
  \<^verbatim>\<open>.css\<close> and a deferred script tag otherwise.
\<close>

theorem served_files_example:
  \<open>(sep = CHR ''/'' \<or> sep = CHR 0x5C \<longrightarrow>
      logServedFiles sep
        [(''dist'', Dir [(''app.js'', File a), (''app.js.map'', File b), (''styles.css'', File c)])]
      = Inr [\<lparr>fileLocation = ''http://localhost:3000/app.js'',
              importSuggestion = ''<script defer src="http://localhost:3000/app.js"></script>''\<rparr>,
             \<lparr>fileLocation = ''http://localhost:3000/styles.css'',
              importSuggestion =
                ''<link href="http://localhost:3000/styles.css" rel="stylesheet" type="text/css"/>''\<rparr>]) \<and>
    filesInfo (CHR ''/'') [Path ''dist/app.js'', Path ''dist/app.js.map'', Path ''dist/styles.css'']
      = Inr [\<lparr>fileLocation = ''http://localhost:3000/app.js'',
              importSuggestion = ''<script defer src="http://localhost:3000/app.js"></script>''\<rparr>,
             \<lparr>fileLocation = ''http://localhost:3000/styles.css'',
              importSuggestion =
                ''<link href="http://localhost:3000/styles.css" rel="stylesheet" type="text/css"/>''\<rparr>] \<and>
    filesInfo sep (map Path files) = Inr (filterBoolean (map (fileInfo sep) files)) \<and>
    (fileInfo sep file = None) = endsWith file ''.map'' \<and>
    (sep \<notin> set root \<and> (\<forall>s \<in> set p. sep \<notin> set s) \<and> p \<noteq> [] \<and> sep \<notin> set ''.css'' \<and>
     \<not> endsWith (joinWith [sep] (root # p)) ''.map'' \<longrightarrow>
       fileInfo sep (joinWith [sep] (root # p))
         = Some \<lparr>fileLocation = urlOf p,
                 importSuggestion =
                   (if endsWith (joinWith [sep] (root # p)) ''.css'' then linkTag (urlOf p)
                    else scriptTag (urlOf p))\<rparr>)\<close>
proof (intro conjI impI)
  assume "sep = CHR ''/'' \<or> sep = CHR 0x5C"
  then show \<open>logServedFiles sep
        [(''dist'', Dir [(''app.js'', File a), (''app.js.map'', File b), (''styles.css'', File c)])]
      = Inr [\<lparr>fileLocation = ''http://localhost:3000/app.js'',
              importSuggestion = ''<script defer src="http://localhost:3000/app.js"></script>''\<rparr>,
             \<lparr>fileLocation = ''http://localhost:3000/styles.css'',
              importSuggestion =
                ''<link href="http://localhost:3000/styles.css" rel="stylesheet" type="text/css"/>''\<rparr>]\<close>
  proof (elim disjE)
    assume "sep = CHR ''/''"
    then show ?thesis
      by (simp add: logServedFiles_def BUILD_DIRECTORY_def filesInfo_def fileInfo_def join_def
            endsWith_def linkTag_def scriptTag_def SERVE_ORIGIN_value)
  next
    assume "sep = CHR 0x5C"
    then show ?thesis
      by (simp add: logServedFiles_def BUILD_DIRECTORY_def filesInfo_def fileInfo_def join_def
            endsWith_def linkTag_def scriptTag_def SERVE_ORIGIN_value)
  qed
next
  show \<open>filesInfo (CHR ''/'') [Path ''dist/app.js'', Path ''dist/app.js.map'', Path ''dist/styles.css'']
      = Inr [\<lparr>fileLocation = ''http://localhost:3000/app.js'',
              importSuggestion = ''<script defer src="http://localhost:3000/app.js"></script>''\<rparr>,
             \<lparr>fileLocation = ''http://localhost:3000/styles.css'',
              importSuggestion =
                ''<link href="http://localhost:3000/styles.css" rel="stylesheet" type="text/css"/>''\<rparr>]\<close>
    by (simp add: filesInfo_def fileInfo_def endsWith_def linkTag_def scriptTag_def
          SERVE_ORIGIN_value)
next
  show "filesInfo sep (map Path files) = Inr (filterBoolean (map (fileInfo sep) files))"
    by (rule filesInfo_paths)
next
  show "(fileInfo sep file = None) = endsWith file ''.map''"
    by (rule fileInfo_None)
next
  assume valid: "sep \<notin> set root \<and> (\<forall>s \<in> set p. sep \<notin> set s) \<and> p \<noteq> [] \<and> sep \<notin> set ''.css'' \<and>
     \<not> endsWith (joinWith [sep] (root # p)) ''.map''"
  then have "endsWith (joinWith [sep] (root # p)) ''.css'' = endsWith (last p) ''.css''"
    by (intro endsWith_joinWith_last) simp_all
  moreover have "fileInfo sep (joinWith [sep] (root # p)) = Some (servedRow p)"
    using fileInfo_pathOf [of sep root p] valid by (simp del: joinWith.simps)
  ultimately show "fileInfo sep (joinWith [sep] (root # p))
         = Some \<lparr>fileLocation = urlOf p,
                 importSuggestion =
                   (if endsWith (joinWith [sep] (root # p)) ''.css'' then linkTag (urlOf p)
                    else scriptTag (urlOf p))\<rparr>"
    by (simp add: servedRow_def del: joinWith.simps)
qed

theorem served_files_example_witness:
  \<open>logServedFiles (CHR 0x5C)
      [(''dist'', Dir [(''app.js'', File ''A''), (''app.js.map'', File ''B''),
                      (''styles.css'', File ''C'')])]
    = Inr [\<lparr>fileLocation = ''http://localhost:3000/app.js'',
            importSuggestion = ''<script defer src="http://localhost:3000/app.js"></script>''\<rparr>,
           \<lparr>fileLocation = ''http://localhost:3000/styles.css'',
            importSuggestion =
              ''<link href="http://localhost:3000/styles.css" rel="stylesheet" type="text/css"/>''\<rparr>] \<and>
   fileInfo (CHR ''/'') ''dist/app.js.map'' = None \<and>
   \<not> endsWith ''dist/css/site.css'' ''.map'' \<and>
   fileInfo (CHR ''/'') ''dist/css/site.css''
     = Some \<lparr>fileLocation = ''http://localhost:3000/css/site.css'',
             importSuggestion =
               ''<link href="http://localhost:3000/css/site.css" rel="stylesheet" type="text/css"/>''\<rparr>\<close>
  using served_files_example
    [of "CHR 0x5C" "''A''" "''B''" "''C''" "[]" "''dist/app.js.map''" "''dist''" "[''css'', ''site.css'']"]
    served_files_example
    [of "CHR ''/''" "''A''" "''B''" "''C''" "[]" "''dist/app.js.map''" "''dist''" "[''css'', ''site.css'']"]
  by (simp add: endsWith_def urlOf_def linkTag_def scriptTag_def SERVE_ORIGIN_value)

end
